theory Spec2Isabelle
  imports Main "HOL-Library.Sublist"
begin

text \<open>
  The server of the application keeps users, projects, file nodes, chat messages and
  deployments in a relational store and serves them through handlers. This theory
  embeds the handlers for projects and file nodes and the template picker that
  stands in for code generation, and settles what the specification says of them:
  slugs, the classifier, the generated trees, folder deletion and the owner checks.
\<close>

section \<open>Strings\<close>

text \<open>
  The handlers are TypeScript; their strings are modelled as \<open>string\<close>, a list of
  8-bit characters read as the Latin-1 range of JavaScript's code units. The string
  methods and regular-expression replacements the handlers call are written out below,
  one definition per method or regular expression.
\<close>

text \<open>\<^verbatim>\<open>String.prototype.toLowerCase\<close>: A-Z and the Latin-1 capitals move up by 32.\<close>

definition is_upper_char :: "char \<Rightarrow> bool" where
  "is_upper_char c =
     (let n = (of_char c :: nat)
      in (65 \<le> n \<and> n \<le> 90) \<or> (192 \<le> n \<and> n \<le> 222 \<and> n \<noteq> 215))"

definition toLowerChar :: "char \<Rightarrow> char" where
  "toLowerChar c = (if is_upper_char c then char_of (of_char c + (32::nat)) else c)"

definition toLowerCase :: "string \<Rightarrow> string" where
  "toLowerCase s = map toLowerChar s"

text \<open>The character classes of the regular expressions: \<^verbatim>\<open>\s\<close>, \<^verbatim>\<open>[a-z0-9]\<close>, \<^verbatim>\<open>-\<close>,
  \<^verbatim>\<open>[a-z0-9-]\<close>.\<close>

definition is_space :: "char \<Rightarrow> bool" where
  "is_space c = ((of_char c :: nat) \<in> {9, 10, 11, 12, 13, 32, 160})"

definition is_alnum :: "char \<Rightarrow> bool" where
  "is_alnum c =
     (let n = (of_char c :: nat) in (97 \<le> n \<and> n \<le> 122) \<or> (48 \<le> n \<and> n \<le> 57))"

definition is_hyphen :: "char \<Rightarrow> bool" where
  "is_hyphen c = (c = CHR ''-'')"

definition is_slug_char :: "char \<Rightarrow> bool" where
  "is_slug_char c = (is_alnum c \<or> is_hyphen c)"

text \<open>\<^verbatim>\<open>s.replace(/[class]+/g, r)\<close>: every maximal run of characters of the class becomes
  one copy of \<open>r\<close>.\<close>

function replace_runs :: "(char \<Rightarrow> bool) \<Rightarrow> string \<Rightarrow> string \<Rightarrow> string" where
  "replace_runs P r [] = []"
| "replace_runs P r (c # cs) =
     (if P c then r @ replace_runs P r (dropWhile P cs) else c # replace_runs P r cs)"
  by pat_completeness auto
termination
  by (relation "measure (\<lambda>(P, r, s). length s)") (auto simp: length_dropWhile_le le_imp_less_Suc)

text \<open>\<^verbatim>\<open>s.replace(/[class]/g, r)\<close>: every character of the class becomes one copy of
  \<open>r\<close>.\<close>

definition replace_each :: "(char \<Rightarrow> bool) \<Rightarrow> string \<Rightarrow> string \<Rightarrow> string" where
  "replace_each P r s = concat (map (\<lambda>c. if P c then r else [c]) s)"

text \<open>\<^verbatim>\<open>s.replace(/^-|-$/g, '')\<close>: a hyphen at index 0 is removed, and a hyphen at the last
  index is removed (one character at each edge, not a run).\<close>

definition strip_edge_hyphens :: "string \<Rightarrow> string" where
  "strip_edge_hyphens s =
     (let s1 = (case s of [] \<Rightarrow> [] | c # cs \<Rightarrow> if is_hyphen c then cs else s)
      in if s1 \<noteq> [] \<and> is_hyphen (last s1) then butlast s1 else s1)"

text \<open>\<^verbatim>\<open>s.includes(sub)\<close>, \<^verbatim>\<open>s.endsWith(sub)\<close>, \<^verbatim>\<open>s.split(sep)\<close> for a one-character
  separator, and \<^verbatim>\<open>parts.join(sep)\<close>.\<close>

fun includes_str :: "string \<Rightarrow> string \<Rightarrow> bool" where
  "includes_str [] sub = (sub = [])"
| "includes_str (c # cs) sub = (prefix sub (c # cs) \<or> includes_str cs sub)"

definition endsWith :: "string \<Rightarrow> string \<Rightarrow> bool" where
  "endsWith s sub = suffix sub s"

fun split :: "char \<Rightarrow> string \<Rightarrow> string list" where
  "split sep [] = [[]]"
| "split sep (c # cs) =
     (if c = sep then [] # split sep cs
      else (case split sep cs of [] \<Rightarrow> [[c]] | w # ws \<Rightarrow> (c # w) # ws))"

fun join :: "string \<Rightarrow> string list \<Rightarrow> string" where
  "join sep [] = []"
| "join sep [p] = p"
| "join sep (p # q # ps) = p @ sep @ join sep (q # ps)"

text \<open>The decimal rendering of a counter inside a template literal.\<close>

definition digit_char :: "nat \<Rightarrow> char" where
  "digit_char d = char_of (48 + d)"

fun show_nat :: "nat \<Rightarrow> string" where
  "show_nat n = (if n < 10 then [digit_char n] else show_nat (n div 10) @ [digit_char (n mod 10)])"

declare show_nat.simps [simp del]

section \<open>Slugs and manifest identifiers\<close>

text \<open>The base slug of \<^verbatim>\<open>createProject\<close> (create_project.ts, lines 19-23).\<close>

definition createProject_baseSlug :: "string \<Rightarrow> string" where
  "createProject_baseSlug name =
     strip_edge_hyphens
       (replace_runs is_hyphen ''-''
         (replace_each (\<lambda>c. \<not> is_slug_char c) ''-''
           (replace_runs is_space ''-'' (toLowerCase name))))"

text \<open>The slug \<^verbatim>\<open>updateProject\<close> recomputes from a new name (update_project.ts, lines 26-28).\<close>

definition updateProject_slug :: "string \<Rightarrow> string" where
  "updateProject_slug name =
     strip_edge_hyphens (replace_runs (\<lambda>c. \<not> is_alnum c) ''-'' (toLowerCase name))"

text \<open>\<^verbatim>\<open>sanitizeProjectName\<close> (simulate_ai_generation.ts, lines 449-455).\<close>

definition sanitizeProjectName :: "string \<Rightarrow> string" where
  "sanitizeProjectName projectName =
     strip_edge_hyphens
       (replace_runs is_hyphen ''-''
         (replace_runs is_space ''-''
           (replace_each (\<lambda>c. \<not> (is_alnum c \<or> is_space c \<or> is_hyphen c)) []
             (toLowerCase projectName))))"

section \<open>The data model\<close>

text \<open>
  The rows of the tables of db/schema.ts. A \<^verbatim>\<open>serial\<close> key and a \<^verbatim>\<open>timestamp\<close> are
  natural numbers, a nullable \<^verbatim>\<open>text\<close> column is a \<open>string option\<close>.
\<close>

record user =
  user_id :: nat
  user_email :: string
  user_password_hash :: string
  user_name :: string
  user_created_at :: nat
  user_updated_at :: nat

record project =
  project_id :: nat
  project_user_id :: nat
  project_name :: string
  project_description :: "string option"
  project_ai_prompt :: string
  project_slug :: string
  project_is_deployed :: bool
  project_deployment_url :: "string option"
  project_created_at :: nat
  project_updated_at :: nat

record file_node =
  file_id :: nat
  file_project_id :: nat
  file_path :: string
  file_name :: string
  file_content :: string
  file_is_folder :: bool
  file_parent_path :: "string option"
  file_created_at :: nat
  file_updated_at :: nat

record chat_message =
  chat_message_id :: nat
  chat_message_project_id :: nat
  chat_message_user_id :: nat
  chat_message_message :: string
  chat_message_response :: "string option"
  chat_message_is_ai_response :: bool
  chat_message_created_at :: nat

datatype deployment_status = pending | building | deployed | failed

record deployment =
  deployment_id :: nat
  deployment_project_id :: nat
  deployment_status :: deployment_status
  deployment_deployment_url :: "string option"
  deployment_build_logs :: "string option"
  deployment_created_at :: nat
  deployment_completed_at :: "nat option"

text \<open>
  The database the handlers share (\<^verbatim>\<open>db\<close>): one list of rows per table, in insertion
  order, and the next value of the two \<^verbatim>\<open>serial\<close> sequences the handlers draw from.
\<close>

record db =
  users :: "user list"
  projects :: "project list"
  files :: "file_node list"
  chat_messages :: "chat_message list"
  deployments :: "deployment list"
  projects_id_seq :: nat
  files_id_seq :: nat

text \<open>What a handler throws: its own \<^verbatim>\<open>Error\<close>s, and the errors of the store, which it
  rethrows: a constraint violation, or a parameter outside the range of the column it is
  compared with.\<close>

datatype error =
    UserDoesNotExist nat
  | ProjectNotFound nat
  | UniqueViolation string
  | ForeignKeyViolation string
  | NumericValueOutOfRange

text \<open>The inputs of the handlers (schema.ts). An optional field is an \<open>option\<close>; an optional
  nullable field is an option of an option (absent, null, or a string).\<close>

record CreateProjectInput =
  cp_user_id :: nat
  cp_name :: string
  cp_description :: "string option"
  cp_ai_prompt :: string

record UpdateProjectInput =
  up_id :: nat
  up_name :: "string option"
  up_description :: "string option option"
  up_ai_prompt :: "string option"
  up_is_deployed :: "bool option"
  up_deployment_url :: "string option option"

record CreateFileInput =
  cf_project_id :: nat
  cf_path :: string
  cf_name :: string
  cf_content :: string
  cf_is_folder :: bool
  cf_parent_path :: "string option"

text \<open>An element of the list \<^verbatim>\<open>generateFilesFromPrompt\<close> returns.\<close>

record generated_file =
  gen_path :: string
  gen_name :: string
  gen_content :: string
  gen_is_folder :: bool

section \<open>The store's statements\<close>

text \<open>
  \<^verbatim>\<open>db.insert(projectsTable).values(..).returning()\<close>. The table declares
  \<^verbatim>\<open>user_id\<close> as a reference to \<^verbatim>\<open>users.id\<close> and \<^verbatim>\<open>slug\<close> as \<^verbatim>\<open>unique()\<close>; a row that
  breaks either is rejected and the table is left as it was. The key comes from the
  sequence, both timestamps from \<^verbatim>\<open>defaultNow()\<close>.
\<close>

record project_values =
  pv_user_id :: nat
  pv_name :: string
  pv_description :: "string option"
  pv_ai_prompt :: string
  pv_slug :: string
  pv_is_deployed :: bool
  pv_deployment_url :: "string option"

definition insert_project :: "db \<Rightarrow> nat \<Rightarrow> project_values \<Rightarrow> (error + project) \<times> db" where
  "insert_project st now v =
     (if filter (\<lambda>u. user_id u = pv_user_id v) (users st) = []
      then (Inl (ForeignKeyViolation ''projects_user_id_users_id_fk''), st)
      else if filter (\<lambda>p. project_slug p = pv_slug v) (projects st) \<noteq> []
      then (Inl (UniqueViolation ''projects_slug_unique''), st)
      else
        let r = \<lparr>project_id = projects_id_seq st, project_user_id = pv_user_id v,
                 project_name = pv_name v, project_description = pv_description v,
                 project_ai_prompt = pv_ai_prompt v, project_slug = pv_slug v,
                 project_is_deployed = pv_is_deployed v,
                 project_deployment_url = pv_deployment_url v,
                 project_created_at = now, project_updated_at = now\<rparr>
        in (Inr r, st\<lparr>projects := projects st @ [r],
                       projects_id_seq := Suc (projects_id_seq st)\<rparr>))"

text \<open>
  \<^verbatim>\<open>db.update(projectsTable).set(updateData).where(eq(projectsTable.id, id)).returning()\<close>:
  the rows with that id are rewritten by \<open>upd\<close>; the statement is rejected when a
  rewritten row would carry the slug of a row with another id.
\<close>

definition update_projects ::
  "db \<Rightarrow> nat \<Rightarrow> (project \<Rightarrow> project) \<Rightarrow> (error + project list) \<times> db" where
  "update_projects st pid upd =
     (let hit = filter (\<lambda>p. project_id p = pid) (projects st);
          others = filter (\<lambda>p. project_id p \<noteq> pid) (projects st)
      in if list_ex (\<lambda>p. list_ex (\<lambda>q. project_slug q = project_slug (upd p)) others) hit
         then (Inl (UniqueViolation ''projects_slug_unique''), st)
         else (Inr (map upd hit),
               st\<lparr>projects := map (\<lambda>p. if project_id p = pid then upd p else p) (projects st)\<rparr>))"

text \<open>
  The key columns are 32-bit (\<^verbatim>\<open>serial\<close>, \<^verbatim>\<open>integer\<close>). A number that a statement compares
  with such a column must lie in that range; the store refuses the statement otherwise
  (numeric value out of range), whatever the table holds.
\<close>

definition in_int4 :: "int \<Rightarrow> bool" where
  "in_int4 n = (- 2147483648 \<le> n \<and> n \<le> 2147483647)"

text \<open>
  \<^verbatim>\<open>db.delete(projectsTable).where(and(eq(id), eq(user_id)))\<close>: the matching rows go, and
  with them (\<^verbatim>\<open>onDelete: 'cascade'\<close>) the files, chat messages and deployments that
  reference them. The result is the number of project rows deleted. The two numbers are
  the ones the route hands over, any integers.
\<close>

definition delete_projects :: "db \<Rightarrow> int \<Rightarrow> int \<Rightarrow> nat \<times> db" where
  "delete_projects st pid uid =
     (let hit = (\<lambda>p. int (project_id p) = pid \<and> int (project_user_id p) = uid);
          gone = map project_id (filter hit (projects st))
      in (length gone,
          st\<lparr>projects := filter (\<lambda>p. \<not> hit p) (projects st),
             files := filter (\<lambda>f. file_project_id f \<notin> set gone) (files st),
             chat_messages :=
               filter (\<lambda>m. chat_message_project_id m \<notin> set gone) (chat_messages st),
             deployments :=
               filter (\<lambda>d. deployment_project_id d \<notin> set gone) (deployments st)\<rparr>))"

text \<open>
  \<^verbatim>\<open>db.insert(filesTable).values(..)\<close>: \<^verbatim>\<open>project_id\<close> references \<^verbatim>\<open>projects.id\<close>; the
  table has no other constraint (in particular none on \<^verbatim>\<open>path\<close> or \<^verbatim>\<open>parent_path\<close>).
  The values inserted have the shape of a \<open>CreateFileInput\<close>.
\<close>

definition insert_file :: "db \<Rightarrow> nat \<Rightarrow> CreateFileInput \<Rightarrow> (error + file_node) \<times> db" where
  "insert_file st now v =
     (if filter (\<lambda>p. project_id p = cf_project_id v) (projects st) = []
      then (Inl (ForeignKeyViolation ''files_project_id_projects_id_fk''), st)
      else
        let r = \<lparr>file_id = files_id_seq st, file_project_id = cf_project_id v,
                 file_path = cf_path v, file_name = cf_name v, file_content = cf_content v,
                 file_is_folder = cf_is_folder v, file_parent_path = cf_parent_path v,
                 file_created_at = now, file_updated_at = now\<rparr>
        in (Inr r, st\<lparr>files := files st @ [r], files_id_seq := Suc (files_id_seq st)\<rparr>))"

text \<open>
  The \<^verbatim>\<open>LIKE\<close> operator of the store (PostgreSQL), pattern first: \<^verbatim>\<open>%\<close> matches any
  run of characters, \<^verbatim>\<open>_\<close> any one character, a backslash makes the next pattern
  character literal, every other pattern character matches itself. A pattern that ends
  in a lone backslash matches nothing here; the handler below never builds one, since
  its patterns end in \<^verbatim>\<open>/%\<close>.
\<close>

fun like_match :: "string \<Rightarrow> string \<Rightarrow> bool" where
  "like_match [] s = (s = [])"
| "like_match (p # ps) s =
     (if p = CHR ''%'' then
        like_match ps s \<or> (case s of [] \<Rightarrow> False | _ # cs \<Rightarrow> like_match (p # ps) cs)
      else if p = CHR ''_'' then
        (case s of [] \<Rightarrow> False | _ # cs \<Rightarrow> like_match ps cs)
      else if p = CHR 0x5C then
        (case ps of [] \<Rightarrow> False
         | q # qs \<Rightarrow> (case s of [] \<Rightarrow> False | c # cs \<Rightarrow> c = q \<and> like_match qs cs))
      else
        (case s of [] \<Rightarrow> False | c # cs \<Rightarrow> c = p \<and> like_match ps cs))"

section \<open>The template picker\<close>

text \<open>The four generators of simulate\_ai\_generation.ts, with their contents as the
  template literals build them.\<close>

definition generateReactProject :: \<open>string \<Rightarrow> generated_file list\<close> where
  \<open>generateReactProject projectName = [
    \<lparr>gen_path = ''/src'', gen_name = ''src'',
      gen_content = [],
      gen_is_folder = True\<rparr>,
    \<lparr>gen_path = ''/public'', gen_name = ''public'',
      gen_content = [],
      gen_is_folder = True\<rparr>,
    \<lparr>gen_path = ''/package.json'', gen_name = ''package.json'',
      gen_content = ''{\<newline>  "name": "'' @ sanitizeProjectName projectName @ ''",\<newline>  "version": "1.0.0",\<newline>  "private": true,\<newline>  "dependencies": {\<newline>    "react": "^18.2.0",\<newline>    "react-dom": "^18.2.0",\<newline>    "typescript": "^4.9.5"\<newline>  },\<newline>  "scripts": {\<newline>    "start": "react-scripts start",\<newline>    "build": "react-scripts build"\<newline>  }\<newline>}'',
      gen_is_folder = False\<rparr>,
    \<lparr>gen_path = ''/src/App.tsx'', gen_name = ''App.tsx'',
      gen_content = ''import React from 'react';\<newline>import './App.css';\<newline>\<newline>function App() {\<newline>  return (\<newline>    <div className="App">\<newline>      <header className="App-header">\<newline>        <h1>Welcome to '' @ projectName @ ''</h1>\<newline>        <p>Your React application is ready!</p>\<newline>      </header>\<newline>    </div>\<newline>  );\<newline>}\<newline>\<newline>export default App;'',
      gen_is_folder = False\<rparr>,
    \<lparr>gen_path = ''/src/index.tsx'', gen_name = ''index.tsx'',
      gen_content = ''import React from 'react';\<newline>import ReactDOM from 'react-dom/client';\<newline>import App from './App';\<newline>\<newline>const root = ReactDOM.createRoot(\<newline>  document.getElementById('root') as HTMLElement\<newline>);\<newline>\<newline>root.render(\<newline>  <React.StrictMode>\<newline>    <App />\<newline>  </React.StrictMode>\<newline>);'',
      gen_is_folder = False\<rparr>,
    \<lparr>gen_path = ''/src/App.css'', gen_name = ''App.css'',
      gen_content = ''.App {\<newline>  text-align: center;\<newline>}\<newline>\<newline>.App-header {\<newline>  background-color: #282c34;\<newline>  padding: 20px;\<newline>  color: white;\<newline>  min-height: 50vh;\<newline>  display: flex;\<newline>  flex-direction: column;\<newline>  align-items: center;\<newline>  justify-content: center;\<newline>}'',
      gen_is_folder = False\<rparr>,
    \<lparr>gen_path = ''/public/index.html'', gen_name = ''index.html'',
      gen_content = ''<!DOCTYPE html>\<newline><html lang="en">\<newline><head>\<newline>    <meta charset="utf-8" />\<newline>    <meta name="viewport" content="width=device-width, initial-scale=1" />\<newline>    <title>'' @ projectName @ ''</title>\<newline></head>\<newline><body>\<newline>    <div id="root"></div>\<newline></body>\<newline></html>'',
      gen_is_folder = False\<rparr>]\<close>

definition generateAPIProject :: \<open>string \<Rightarrow> generated_file list\<close> where
  \<open>generateAPIProject projectName = [
    \<lparr>gen_path = ''/src'', gen_name = ''src'',
      gen_content = [],
      gen_is_folder = True\<rparr>,
    \<lparr>gen_path = ''/package.json'', gen_name = ''package.json'',
      gen_content = ''{\<newline>  "name": "'' @ sanitizeProjectName projectName @ ''",\<newline>  "version": "1.0.0",\<newline>  "main": "src/server.js",\<newline>  "dependencies": {\<newline>    "express": "^4.18.2",\<newline>    "cors": "^2.8.5"\<newline>  },\<newline>  "scripts": {\<newline>    "start": "node src/server.js",\<newline>    "dev": "nodemon src/server.js"\<newline>  }\<newline>}'',
      gen_is_folder = False\<rparr>,
    \<lparr>gen_path = ''/src/server.js'', gen_name = ''server.js'',
      gen_content = ''const express = require('express');\<newline>const cors = require('cors');\<newline>\<newline>const app = express();\<newline>const PORT = process.env.PORT || 3000;\<newline>\<newline>// Middleware\<newline>app.use(cors());\<newline>app.use(express.json());\<newline>\<newline>// Routes\<newline>app.get('/', (req, res) => {\<newline>    res.json({ message: 'Welcome to '' @ projectName @ '' API' });\<newline>});\<newline>\<newline>app.get('/api/health', (req, res) => {\<newline>    res.json({ status: 'OK', timestamp: new Date().toISOString() });\<newline>});\<newline>\<newline>app.listen(PORT, () => {\<newline>    console.log(`'' @ projectName @ '' API server running on port ${PORT}`);\<newline>});'',
      gen_is_folder = False\<rparr>,
    \<lparr>gen_path = ''/README.md'', gen_name = ''README.md'',
      gen_content = ''# '' @ projectName @ ''\<newline>\<newline>A Node.js API server built with Express.\<newline>\<newline>## Getting Started\<newline>\<newline>1. Install dependencies:\<newline>   ```\<newline>   npm install\<newline>   ```\<newline>\<newline>2. Start the server:\<newline>   ```\<newline>   npm start\<newline>   ```\<newline>\<newline>## Endpoints\<newline>\<newline>- `GET /` - Welcome message\<newline>- `GET /api/health` - Health check'',
      gen_is_folder = False\<rparr>]\<close>

definition generateFullStackProject :: \<open>string \<Rightarrow> generated_file list\<close> where
  \<open>generateFullStackProject projectName = [
    \<lparr>gen_path = ''/frontend'', gen_name = ''frontend'',
      gen_content = [],
      gen_is_folder = True\<rparr>,
    \<lparr>gen_path = ''/backend'', gen_name = ''backend'',
      gen_content = [],
      gen_is_folder = True\<rparr>,
    \<lparr>gen_path = ''/package.json'', gen_name = ''package.json'',
      gen_content = ''{\<newline>  "name": "'' @ sanitizeProjectName projectName @ ''",\<newline>  "version": "1.0.0",\<newline>  "private": true,\<newline>  "workspaces": [\<newline>    "frontend",\<newline>    "backend"\<newline>  ],\<newline>  "scripts": {\<newline>    "dev": "concurrently '' @ [CHR 0x5C] @ ''"npm run dev --workspace=backend'' @ [CHR 0x5C] @ ''" '' @ [CHR 0x5C] @ ''"npm run dev --workspace=frontend'' @ [CHR 0x5C] @ ''"",\<newline>    "build": "npm run build --workspace=frontend && npm run build --workspace=backend"\<newline>  },\<newline>  "devDependencies": {\<newline>    "concurrently": "^7.6.0"\<newline>  }\<newline>}'',
      gen_is_folder = False\<rparr>,
    \<lparr>gen_path = ''/frontend/package.json'', gen_name = ''package.json'',
      gen_content = ''{\<newline>  "name": "'' @ sanitizeProjectName projectName @ ''-frontend",\<newline>  "version": "1.0.0",\<newline>  "dependencies": {\<newline>    "react": "^18.2.0",\<newline>    "react-dom": "^18.2.0",\<newline>    "axios": "^1.3.0"\<newline>  },\<newline>  "scripts": {\<newline>    "start": "react-scripts start",\<newline>    "build": "react-scripts build",\<newline>    "dev": "react-scripts start"\<newline>  }\<newline>}'',
      gen_is_folder = False\<rparr>,
    \<lparr>gen_path = ''/backend/package.json'', gen_name = ''package.json'',
      gen_content = ''{\<newline>  "name": "'' @ sanitizeProjectName projectName @ ''-backend",\<newline>  "version": "1.0.0",\<newline>  "main": "server.js",\<newline>  "dependencies": {\<newline>    "express": "^4.18.2",\<newline>    "cors": "^2.8.5"\<newline>  },\<newline>  "scripts": {\<newline>    "start": "node server.js",\<newline>    "dev": "nodemon server.js"\<newline>  }\<newline>}'',
      gen_is_folder = False\<rparr>,
    \<lparr>gen_path = ''/frontend/src'', gen_name = ''src'',
      gen_content = [],
      gen_is_folder = True\<rparr>,
    \<lparr>gen_path = ''/frontend/src/App.js'', gen_name = ''App.js'',
      gen_content = ''import React, { useState, useEffect } from 'react';\<newline>import axios from 'axios';\<newline>\<newline>function App() {\<newline>  const [message, setMessage] = useState('' @ [CHR 0x27] @ [CHR 0x27] @ '');\<newline>\<newline>  useEffect(() => {\<newline>    axios.get('http://localhost:3001/')\<newline>      .then(response => setMessage(response.data.message))\<newline>      .catch(error => console.error('Error:', error));\<newline>  }, []);\<newline>\<newline>  return (\<newline>    <div className="App">\<newline>      <h1>'' @ projectName @ ''</h1>\<newline>      <p>Backend message: {message}</p>\<newline>    </div>\<newline>  );\<newline>}\<newline>\<newline>export default App;'',
      gen_is_folder = False\<rparr>,
    \<lparr>gen_path = ''/backend/server.js'', gen_name = ''server.js'',
      gen_content = ''const express = require('express');\<newline>const cors = require('cors');\<newline>\<newline>const app = express();\<newline>const PORT = process.env.PORT || 3001;\<newline>\<newline>app.use(cors());\<newline>app.use(express.json());\<newline>\<newline>app.get('/', (req, res) => {\<newline>    res.json({ message: 'Hello from '' @ projectName @ '' backend!' });\<newline>});\<newline>\<newline>app.listen(PORT, () => {\<newline>    console.log(`Backend server running on port ${PORT}`);\<newline>});'',
      gen_is_folder = False\<rparr>]\<close>

definition generateBasicProject :: \<open>string \<Rightarrow> generated_file list\<close> where
  \<open>generateBasicProject projectName = [
    \<lparr>gen_path = ''/README.md'', gen_name = ''README.md'',
      gen_content = ''# '' @ projectName @ ''\<newline>\<newline>A basic project generated from your AI prompt.\<newline>\<newline>## Getting Started\<newline>\<newline>This project structure has been created based on your requirements. Add your specific implementation details here.'',
      gen_is_folder = False\<rparr>,
    \<lparr>gen_path = ''/src'', gen_name = ''src'',
      gen_content = [],
      gen_is_folder = True\<rparr>,
    \<lparr>gen_path = ''/src/index.js'', gen_name = ''index.js'',
      gen_content = ''// '' @ projectName @ ''\<newline>// Generated from AI prompt\<newline>\<newline>console.log('Hello from '' @ projectName @ ''!');\<newline>\<newline>// Add your implementation here'',
      gen_is_folder = False\<rparr>,
    \<lparr>gen_path = ''/package.json'', gen_name = ''package.json'',
      gen_content = ''{\<newline>  "name": "'' @ sanitizeProjectName projectName @ ''",\<newline>  "version": "1.0.0",\<newline>  "main": "src/index.js",\<newline>  "scripts": {\<newline>    "start": "node src/index.js"\<newline>  }\<newline>}'',
      gen_is_folder = False\<rparr>]\<close>

text \<open>\<^verbatim>\<open>generateFilesFromPrompt\<close>: the first test that holds picks the generator.\<close>

definition generateFilesFromPrompt :: "string \<Rightarrow> string \<Rightarrow> generated_file list" where
  "generateFilesFromPrompt aiPrompt projectName =
     (let promptLower = toLowerCase aiPrompt
      in if includes_str promptLower ''full stack'' \<or> includes_str promptLower ''fullstack''
         then generateFullStackProject projectName
         else if includes_str promptLower ''api'' \<or> includes_str promptLower ''backend''
               \<or> includes_str promptLower ''server'' \<or> includes_str promptLower ''express''
               \<or> includes_str promptLower ''node.js''
         then generateAPIProject projectName
         else if includes_str promptLower ''react'' \<or> includes_str promptLower ''frontend''
               \<or> includes_str promptLower ''ui''
         then generateReactProject projectName
         else generateBasicProject projectName)"

text \<open>\<^verbatim>\<open>getParentPath\<close>: null for a path of at most one segment.\<close>

definition getParentPath :: "string \<Rightarrow> string option" where
  "getParentPath filePath =
     (let parts = filter (\<lambda>part. part \<noteq> []) (split CHR ''/'' filePath)
      in if length parts \<le> 1 then None else Some (''/'' @ join ''/'' (butlast parts)))"

section \<open>The handlers\<close>

text \<open>
  A handler takes the database and returns it with its result; one that writes a
  timestamp takes the clock's reading \<open>now\<close>. A thrown error is \<open>Inl\<close>, and the
  database returned with it is the one left behind at the throw.
\<close>

text \<open>\<^verbatim>\<open>simulateAIGeneration\<close>: the insert loop, then the handler.\<close>

fun insert_generated_files ::
  "db \<Rightarrow> nat \<Rightarrow> nat \<Rightarrow> generated_file list \<Rightarrow> (error + unit) \<times> db" where
  "insert_generated_files st now projectId [] = (Inr (), st)"
| "insert_generated_files st now projectId (file # rest) =
     (case insert_file st now
             \<lparr>cf_project_id = projectId, cf_path = gen_path file, cf_name = gen_name file,
              cf_content = gen_content file, cf_is_folder = gen_is_folder file,
              cf_parent_path = getParentPath (gen_path file)\<rparr> of
        (Inl e, st') \<Rightarrow> (Inl e, st')
      | (Inr _, st') \<Rightarrow> insert_generated_files st' now projectId rest)"

definition simulateAIGeneration ::
  "db \<Rightarrow> nat \<Rightarrow> nat \<Rightarrow> (error + project \<times> generated_file list) \<times> db" where
  "simulateAIGeneration st now projectId =
     (case filter (\<lambda>p. project_id p = projectId) (projects st) of
        [] \<Rightarrow> (Inl (ProjectNotFound projectId), st)
      | project # _ \<Rightarrow>
          let generatedFiles =
                generateFilesFromPrompt (project_ai_prompt project) (project_name project)
          in (case insert_generated_files st now projectId generatedFiles of
                (Inl e, st') \<Rightarrow> (Inl e, st')
              | (Inr _, st') \<Rightarrow> (Inr (project, generatedFiles), st')))"

text \<open>\<^verbatim>\<open>createFile\<close>: the project must exist; nothing else is checked.\<close>

definition createFile :: "db \<Rightarrow> nat \<Rightarrow> CreateFileInput \<Rightarrow> (error + file_node) \<times> db" where
  "createFile st now input =
     (if filter (\<lambda>p. project_id p = cf_project_id input) (projects st) = []
      then (Inl (ProjectNotFound (cf_project_id input)), st)
      else insert_file st now
             \<lparr>cf_project_id = cf_project_id input, cf_path = cf_path input,
              cf_name = cf_name input, cf_content = cf_content input,
              cf_is_folder = cf_is_folder input, cf_parent_path = cf_parent_path input\<rparr>)"

text \<open>
  \<^verbatim>\<open>deleteFile\<close>: for a folder, a first statement deletes the rows of the project whose
  path is \<^verbatim>\<open>LIKE\<close> the folder path, a slash appended unless the path ends in one,
  followed by \<^verbatim>\<open>%\<close>; a second statement deletes the row itself, and the result is whether
  that second statement deleted a row.
\<close>

definition deleteFile :: "db \<Rightarrow> nat \<Rightarrow> nat \<Rightarrow> bool \<times> db" where
  "deleteFile st fileId projectId =
     (case filter (\<lambda>f. file_id f = fileId \<and> file_project_id f = projectId) (files st) of
        [] \<Rightarrow> (False, st)
      | file # _ \<Rightarrow>
          let st1 =
                (if file_is_folder file then
                   let folderPath =
                         (if endsWith (file_path file) ''/'' then file_path file
                          else file_path file @ ''/'')
                   in st\<lparr>files :=
                           filter (\<lambda>f. \<not> (file_project_id f = projectId
                                           \<and> like_match (folderPath @ ''%'') (file_path f)))
                             (files st)\<rparr>
                 else st);
              rowCount =
                length (filter (\<lambda>f. file_id f = fileId \<and> file_project_id f = projectId)
                          (files st1))
          in (0 < rowCount,
              st1\<lparr>files :=
                    filter (\<lambda>f. \<not> (file_id f = fileId \<and> file_project_id f = projectId))
                      (files st1)\<rparr>))"

text \<open>
  \<^verbatim>\<open>createProject\<close>. The \<^verbatim>\<open>while (true)\<close> loop that looks for a free slug is a partial
  function: \<open>None\<close> is a loop that never leaves, and the handler then returns nothing.
\<close>

partial_function (option) slug_loop :: "db \<Rightarrow> string \<Rightarrow> string \<Rightarrow> nat \<Rightarrow> string option" where
  "slug_loop st baseSlug slug counter =
     (if filter (\<lambda>p. project_slug p = slug) (projects st) = [] then Some slug
      else slug_loop st baseSlug (baseSlug @ ''-'' @ show_nat counter) (Suc counter))"

definition createProject ::
  "db \<Rightarrow> nat \<Rightarrow> CreateProjectInput \<Rightarrow> ((error + project) \<times> db) option" where
  "createProject st now input =
     (if filter (\<lambda>u. user_id u = cp_user_id input) (users st) = []
      then Some (Inl (UserDoesNotExist (cp_user_id input)), st)
      else
        let baseSlug = createProject_baseSlug (cp_name input)
        in (case slug_loop st baseSlug baseSlug 1 of
              None \<Rightarrow> None
            | Some slug \<Rightarrow>
                Some (insert_project st now
                        \<lparr>pv_user_id = cp_user_id input, pv_name = cp_name input,
                         pv_description = cp_description input,
                         pv_ai_prompt = cp_ai_prompt input, pv_slug = slug,
                         pv_is_deployed = False, pv_deployment_url = None\<rparr>)))"

text \<open>
  \<^verbatim>\<open>updateProject\<close>: \<open>updateData\<close> is the object of the fields provided, applied to a
  row; a new name brings the recomputed slug with it, taken as it is. The rows the
  statement returns are the rewritten rows of the id just found, so \<^verbatim>\<open>result[0]\<close> is
  the head of a list that is not empty. An id outside the range of the key column is
  refused by the store at the first \<^verbatim>\<open>SELECT\<close>.
\<close>

definition updateData :: "nat \<Rightarrow> UpdateProjectInput \<Rightarrow> project \<Rightarrow> project" where
  "updateData now input p =
     (let p1 = p\<lparr>project_updated_at := now\<rparr>;
          p2 = (case up_name input of None \<Rightarrow> p1
                | Some n \<Rightarrow> p1\<lparr>project_name := n, project_slug := updateProject_slug n\<rparr>);
          p3 = (case up_description input of None \<Rightarrow> p2
                | Some d \<Rightarrow> p2\<lparr>project_description := d\<rparr>);
          p4 = (case up_ai_prompt input of None \<Rightarrow> p3
                | Some a \<Rightarrow> p3\<lparr>project_ai_prompt := a\<rparr>);
          p5 = (case up_is_deployed input of None \<Rightarrow> p4
                | Some b \<Rightarrow> p4\<lparr>project_is_deployed := b\<rparr>)
      in (case up_deployment_url input of None \<Rightarrow> p5
          | Some u \<Rightarrow> p5\<lparr>project_deployment_url := u\<rparr>))"

definition updateProject :: "db \<Rightarrow> nat \<Rightarrow> UpdateProjectInput \<Rightarrow> (error + project) \<times> db" where
  "updateProject st now input =
     (if \<not> in_int4 (int (up_id input))
      then (Inl NumericValueOutOfRange, st)
      else if filter (\<lambda>p. project_id p = up_id input) (projects st) = []
      then (Inl (ProjectNotFound (up_id input)), st)
      else (case update_projects st (up_id input) (updateData now input) of
              (Inl e, st') \<Rightarrow> (Inl e, st')
            | (Inr rows, st') \<Rightarrow> (Inr (hd rows), st')))"

text \<open>
  \<^verbatim>\<open>deleteProject\<close>: both the id and the owner must match. The two numbers come from the
  route as they are (\<^verbatim>\<open>z.number()\<close>), here any integers; the first \<^verbatim>\<open>SELECT\<close> compares them
  with the key columns, so the store refuses it when one is outside their range, and the
  handler rethrows.
\<close>

definition deleteProject :: "db \<Rightarrow> int \<Rightarrow> int \<Rightarrow> (error + bool) \<times> db" where
  "deleteProject st projectId userId =
     (if \<not> (in_int4 projectId \<and> in_int4 userId)
      then (Inl NumericValueOutOfRange, st)
      else if filter (\<lambda>p. int (project_id p) = projectId \<and> int (project_user_id p) = userId)
                (projects st) = []
      then (Inr False, st)
      else (case delete_projects st projectId userId of
              (rowCount, st') \<Rightarrow> (Inr (0 < rowCount), st')))"

section \<open>What the specification asks of the handlers\<close>

text \<open>
  The tree invariant of FileNode: a node's \<open>parent_path\<close>, when not null, is the path
  of another node (another row, so another key) of the same project that is a folder.
\<close>

definition tree_invariant :: "file_node list \<Rightarrow> bool" where
  "tree_invariant fs =
     list_all
       (\<lambda>n. case file_parent_path n of
              None \<Rightarrow> True
            | Some pp \<Rightarrow>
                list_ex (\<lambda>m. file_id m \<noteq> file_id n \<and> file_is_folder m
                             \<and> file_project_id m = file_project_id n \<and> file_path m = pp) fs)
       fs"

text \<open>
  Tree consistency of a generated list: every node whose parent path, computed from
  its path, is not null has a folder node with that path in the same list.
\<close>

definition tree_consistent :: "generated_file list \<Rightarrow> bool" where
  "tree_consistent gs =
     list_all
       (\<lambda>f. case getParentPath (gen_path f) of
              None \<Rightarrow> True
            | Some pp \<Rightarrow> list_ex (\<lambda>g. gen_is_folder g \<and> gen_path g = pp) gs)
       gs"

text \<open>
  The regular expression \<^verbatim>\<open>^[a-z0-9]+(-[a-z0-9]+)*$\<close> as the two states of its
  automaton: \<open>slug_regex\<close> at the start of a segment, \<open>slug_regex_rest\<close> inside one.
\<close>

fun slug_regex :: "string \<Rightarrow> bool" and slug_regex_rest :: "string \<Rightarrow> bool" where
  "slug_regex [] = False"
| "slug_regex (c # cs) = (is_alnum c \<and> slug_regex_rest cs)"
| "slug_regex_rest [] = True"
| "slug_regex_rest (c # cs) =
     (if is_hyphen c then slug_regex cs else is_alnum c \<and> slug_regex_rest cs)"

text \<open>
  The archetypes of the classifier, and the classifier as the specification words it:
  a case-insensitive substring search (some position of the prompt carries the keyword
  up to the case of its letters), first matching rule first. The two backend-framework
  keywords are the ones the source names.
\<close>

datatype archetype = FullStack | API | Frontend | Basic

definition contains_ci :: "string \<Rightarrow> string \<Rightarrow> bool" where
  "contains_ci text keyword =
     list_ex
       (\<lambda>i. map toLowerChar (take (length keyword) (drop i text)) = map toLowerChar keyword)
       [0..<Suc (length text)]"

definition classify :: "string \<Rightarrow> archetype" where
  "classify promptText =
     (if contains_ci promptText ''full stack'' \<or> contains_ci promptText ''fullstack''
      then FullStack
      else if contains_ci promptText ''api'' \<or> contains_ci promptText ''backend''
            \<or> contains_ci promptText ''server'' \<or> contains_ci promptText ''express''
            \<or> contains_ci promptText ''node.js''
      then API
      else if contains_ci promptText ''react'' \<or> contains_ci promptText ''frontend''
            \<or> contains_ci promptText ''ui''
      then Frontend
      else Basic)"

definition synthesize :: "archetype \<Rightarrow> string \<Rightarrow> generated_file list" where
  "synthesize a projectName =
     (case a of
        FullStack \<Rightarrow> generateFullStackProject projectName
      | API \<Rightarrow> generateAPIProject projectName
      | Frontend \<Rightarrow> generateReactProject projectName
      | Basic \<Rightarrow> generateBasicProject projectName)"

text \<open>
  The manifest identifier as the specification words it: lower-case, strip every
  character outside \<^verbatim>\<open>[a-z0-9-]\<close>, collapse repeated hyphens, trim the hyphens at both
  edges.
\<close>

definition trim_hyphens :: "string \<Rightarrow> string" where
  "trim_hyphens s = rev (dropWhile is_hyphen (rev (dropWhile is_hyphen s)))"

definition spec_manifest_identifier :: "string \<Rightarrow> string" where
  "spec_manifest_identifier projectName =
     trim_hyphens (replace_runs is_hyphen ''-'' (filter is_slug_char (toLowerCase projectName)))"

text \<open>The identifier a generated package.json carries: the text of its leading
  \<^verbatim>\<open>"name"\<close> member.\<close>

definition manifest_name :: \<open>string \<Rightarrow> string option\<close> where
  \<open>manifest_name content =
     (let opening = ''{\<newline>  "name": "''
      in if prefix opening content
         then Some (takeWhile (\<lambda>c. c \<noteq> CHR 0x22) (drop (length opening) content))
         else None)\<close>

text \<open>Whitespace turned into hyphens, character by character.\<close>

definition hyphenate_spaces :: "string \<Rightarrow> string" where
  "hyphenate_spaces s = map (\<lambda>c. if is_space c then CHR ''-'' else c) s"

section \<open>Example stores\<close>

text \<open>One user who owns one project with a folder, a file in it, a chat message and
  a deployment; used where a statement is run on a concrete store.\<close>

definition ada :: user where
  "ada = \<lparr>user_id = 1, user_email = ''ada@example.com'', user_password_hash = ''x'',
           user_name = ''Ada'', user_created_at = 0, user_updated_at = 0\<rparr>"

definition shop :: project where
  "shop = \<lparr>project_id = 1, project_user_id = 1, project_name = ''Shop'',
            project_description = None, project_ai_prompt = ''a shop'',
            project_slug = ''shop'', project_is_deployed = False,
            project_deployment_url = None, project_created_at = 0,
            project_updated_at = 0\<rparr>"

definition shop_db :: db where
  "shop_db =
     \<lparr>users = [ada], projects = [shop],
      files =
        [\<lparr>file_id = 1, file_project_id = 1, file_path = ''/src'', file_name = ''src'',
          file_content = [], file_is_folder = True, file_parent_path = None,
          file_created_at = 0, file_updated_at = 0\<rparr>,
         \<lparr>file_id = 2, file_project_id = 1, file_path = ''/src/a.ts'', file_name = ''a.ts'',
          file_content = ''x'', file_is_folder = False, file_parent_path = Some ''/src'',
          file_created_at = 0, file_updated_at = 0\<rparr>],
      chat_messages =
        [\<lparr>chat_message_id = 1, chat_message_project_id = 1, chat_message_user_id = 1,
          chat_message_message = ''hello'', chat_message_response = None,
          chat_message_is_ai_response = False, chat_message_created_at = 0\<rparr>],
      deployments =
        [\<lparr>deployment_id = 1, deployment_project_id = 1, deployment_status = pending,
          deployment_deployment_url = None, deployment_build_logs = None,
          deployment_created_at = 0, deployment_completed_at = None\<rparr>],
      projects_id_seq = 2, files_id_seq = 3\<rparr>"

text \<open>The same store with a second project.\<close>

definition blog :: project where
  "blog = \<lparr>project_id = 2, project_user_id = 1, project_name = ''Blog'',
            project_description = None, project_ai_prompt = ''a blog'',
            project_slug = ''blog'', project_is_deployed = False,
            project_deployment_url = None, project_created_at = 0,
            project_updated_at = 0\<rparr>"

definition two_projects_db :: db where
  "two_projects_db = shop_db\<lparr>projects := [shop, blog], projects_id_seq := 3\<rparr>"

text \<open>A string without two hyphens in a row.\<close>

fun no_double_hyphen :: "string \<Rightarrow> bool" where
  "no_double_hyphen [] = True"
| "no_double_hyphen [c] = True"
| "no_double_hyphen (c # d # cs) = (\<not> (is_hyphen c \<and> is_hyphen d) \<and> no_double_hyphen (d # cs))"

text \<open>The slug of the project a \<open>createProject\<close> call returns, if it returns one.\<close>

definition created_slug :: "((error + project) \<times> db) option \<Rightarrow> string option" where
  "created_slug r = (case r of Some (Inr p, _) \<Rightarrow> Some (project_slug p) | _ \<Rightarrow> None)"

text \<open>Inputs of the examples.\<close>

definition punctuation_only :: CreateProjectInput where
  "punctuation_only =
     \<lparr>cp_user_id = 1, cp_name = ''!!!'', cp_description = None, cp_ai_prompt = ''an app''\<rparr>"

definition docs_readme :: CreateFileInput where
  "docs_readme =
     \<lparr>cf_project_id = 1, cf_path = ''/docs/readme.md'', cf_name = ''readme.md'',
      cf_content = [], cf_is_folder = False, cf_parent_path = Some ''/docs''\<rparr>"

definition src_b :: CreateFileInput where
  "src_b =
     \<lparr>cf_project_id = 1, cf_path = ''/src/b.ts'', cf_name = ''b.ts'',
      cf_content = [], cf_is_folder = False, cf_parent_path = Some ''/src''\<rparr>"

text \<open>The package.json nodes of a generated list, each path with the identifier its
  content carries, and the suffix a workspace manifest adds to the identifier.\<close>

definition manifest_identifiers :: "generated_file list \<Rightarrow> (string \<times> string option) list" where
  "manifest_identifiers gs =
     map (\<lambda>f. (gen_path f, manifest_name (gen_content f)))
       (filter (\<lambda>f. gen_name f = ''package.json'') gs)"

definition workspace_suffix :: "string \<Rightarrow> string" where
  "workspace_suffix path =
     (if path = ''/frontend/package.json'' then ''-frontend''
      else if path = ''/backend/package.json'' then ''-backend'' else [])"

text \<open>The list a \<open>simulateAIGeneration\<close> call returns (empty when it throws), and a
  store whose one project asks for a full-stack application.\<close>

definition generated_files_of ::
  "(error + project \<times> generated_file list) \<times> db \<Rightarrow> generated_file list" where
  "generated_files_of r = (case fst r of Inr (_, gs) \<Rightarrow> gs | Inl _ \<Rightarrow> [])"

definition gallery_db :: db where
  "gallery_db = shop_db\<lparr>projects := [shop\<lparr>project_ai_prompt := ''a fullstack shop''\<rparr>], files := []\<rparr>"

text \<open>The characters that are not literal in a \<^verbatim>\<open>LIKE\<close> pattern.\<close>

definition like_meta :: "char \<Rightarrow> bool" where
  "like_meta c = (c = CHR ''%'' \<or> c = CHR ''_'' \<or> c = CHR 0x5C)"

text \<open>Stores for the examples of file deletion: a node with a key, a project and a
  path, and the store of two projects with a given list of nodes.\<close>

definition file_row :: "nat \<Rightarrow> nat \<Rightarrow> string \<Rightarrow> bool \<Rightarrow> file_node" where
  "file_row i p path folder =
     \<lparr>file_id = i, file_project_id = p, file_path = path, file_name = path,
      file_content = [], file_is_folder = folder, file_parent_path = None,
      file_created_at = 0, file_updated_at = 0\<rparr>"

definition files_db :: "file_node list \<Rightarrow> db" where
  "files_db fs = two_projects_db\<lparr>files := fs, files_id_seq := Suc (length fs)\<rparr>"

definition tree_db :: db where
  "tree_db = files_db
     [file_row 1 1 ''/src'' True, file_row 2 1 ''/src/a.ts'' False,
      file_row 3 1 ''/src/lib'' True, file_row 4 1 ''/src/lib/b.ts'' False,
      file_row 5 1 ''/src2'' True, file_row 6 1 ''/src2/c.ts'' False,
      file_row 7 2 ''/src/a.ts'' False]"

definition slash_db :: db where
  "slash_db = files_db [file_row 1 1 ''/src/'' True, file_row 2 1 ''/src/a.ts'' False]"

definition underscore_db :: db where
  "underscore_db = files_db [file_row 1 1 ''/a_b'' True, file_row 2 1 ''/axb/c.ts'' False]"

text \<open>
  The candidates of the slug loop: the base slug, then the base slug with \<^verbatim>\<open>-1\<close>,
  \<^verbatim>\<open>-2\<close>, and so on; a slug is taken when some project row carries it.
\<close>

definition slug_candidate :: "string \<Rightarrow> nat \<Rightarrow> string" where
  "slug_candidate baseSlug k = (if k = 0 then baseSlug else baseSlug @ ''-'' @ show_nat k)"

definition slug_taken :: "db \<Rightarrow> string \<Rightarrow> bool" where
  "slug_taken st slug = (filter (\<lambda>p. project_slug p = slug) (projects st) \<noteq> [])"

text \<open>Creating one project per input, in order; the result is the list of the slugs
  assigned, or nothing as soon as a call throws or does not return.\<close>

fun create_in_sequence ::
  "db \<Rightarrow> nat \<Rightarrow> CreateProjectInput list \<Rightarrow> (string list \<times> db) option" where
  "create_in_sequence st now [] = Some ([], st)"
| "create_in_sequence st now (input # rest) =
     (case createProject st now input of
        Some (Inr p, st') \<Rightarrow>
          (case create_in_sequence st' now rest of
             Some (slugs, st'') \<Rightarrow> Some (project_slug p # slugs, st'')
           | None \<Rightarrow> None)
      | _ \<Rightarrow> None)"

text \<open>Inputs and stores of the examples of project creation and renaming.\<close>

definition shop_input :: CreateProjectInput where
  "shop_input = \<lparr>cp_user_id = 1, cp_name = ''Shop'', cp_description = None, cp_ai_prompt = ''a shop''\<rparr>"

definition no_projects_db :: db where
  "no_projects_db = shop_db\<lparr>projects := []\<rparr>"

definition rename_blog_to_shop :: UpdateProjectInput where
  "rename_blog_to_shop =
     \<lparr>up_id = 2, up_name = Some ''Shop'', up_description = None, up_ai_prompt = None,
      up_is_deployed = None, up_deployment_url = None\<rparr>"

definition rename_blog_to_journal :: UpdateProjectInput where
  "rename_blog_to_journal =
     \<lparr>up_id = 2, up_name = Some ''Journal'', up_description = None, up_ai_prompt = None,
      up_is_deployed = None, up_deployment_url = None\<rparr>"

section \<open>Project deletion and the owner check\<close>

text \<open>
  C7, as the code has it. When no project row has both the given id and the given
  owner (the project is absent, or it belongs to someone else), \<open>deleteProject\<close> returns
  the database as it was: the project row and every file, chat message and deployment
  are unchanged. It returns false, raising nothing, when both numbers are in the range
  of the 32-bit key columns; when one is not, the store refuses the handler's first
  statement and the handler rethrows that error.
\<close>

theorem deleteProject_wrong_owner_noop:
  assumes "\<not> (\<exists>p \<in> set (projects st).
                 int (project_id p) = projectId \<and> int (project_user_id p) = userId)"
  shows "deleteProject st projectId userId =
           (if in_int4 projectId \<and> in_int4 userId then Inr False else Inl NumericValueOutOfRange,
            st)"
proof -
  from assms
  have "filter (\<lambda>p. int (project_id p) = projectId \<and> int (project_user_id p) = userId)
          (projects st) = []"
    by (simp add: filter_empty_conv)
  then show ?thesis
    by (simp add: deleteProject_def)
qed

theorem deleteProject_wrong_owner_noop_witness:
  "(\<exists>p \<in> set (projects shop_db). int (project_id p) = 1)
   \<and> \<not> (\<exists>p \<in> set (projects shop_db). int (project_id p) = 1 \<and> int (project_user_id p) = 2)
   \<and> in_int4 1 \<and> in_int4 2
   \<and> deleteProject shop_db 1 2 = (Inr False, shop_db)"
proof -
  have h: "\<not> (\<exists>p \<in> set (projects shop_db).
                  int (project_id p) = 1 \<and> int (project_user_id p) = 2)"
    by (simp add: shop_db_def shop_def)
  have e: "\<exists>p \<in> set (projects shop_db). int (project_id p) = 1"
    by (simp add: shop_db_def shop_def)
  have r: "in_int4 1 \<and> in_int4 2"
    by (simp add: in_int4_def)
  from deleteProject_wrong_owner_noop [OF h] r
  have "deleteProject shop_db 1 2 = (Inr False, shop_db)"
    by simp
  with e h r show ?thesis
    by blast
qed

text \<open>
  As the specification states it (for every project id and owner id, false and no
  error) the property fails at a project id beyond the 32-bit range: no project has
  it, and the call raises.
\<close>

theorem deleteProject_out_of_range_counterexample:
  "\<not> list_ex (\<lambda>p. int (project_id p) = 2147483648 \<and> int (project_user_id p) = 1)
        (projects shop_db)
   \<and> deleteProject shop_db 2147483648 1 = (Inl NumericValueOutOfRange, shop_db)"
  by (simp add: deleteProject_def in_int4_def shop_db_def shop_def)

section \<open>Project creation and the owner's existence\<close>

text \<open>
  C10. When the input's \<open>user_id\<close> matches no user, \<open>createProject\<close> raises its own
  error (the user does not exist) whatever the name and whatever slugs are stored, so
  before the slug loop runs and before any insert: the database, and with it the
  project table, is returned unchanged.
\<close>

theorem createProject_unknown_user:
  assumes "cp_user_id input \<notin> user_id ` set (users st)"
  shows "createProject st now input = Some (Inl (UserDoesNotExist (cp_user_id input)), st)"
proof -
  from assms have "filter (\<lambda>u. user_id u = cp_user_id input) (users st) = []"
    by (force simp: filter_empty_conv)
  then show ?thesis
    by (simp add: createProject_def)
qed

theorem createProject_unknown_user_witness:
  "7 \<notin> user_id ` set (users shop_db)
   \<and> createProject shop_db 5
        \<lparr>cp_user_id = 7, cp_name = ''Shop'', cp_description = None, cp_ai_prompt = ''a shop''\<rparr>
       = Some (Inl (UserDoesNotExist 7), shop_db)"
proof -
  have h: "cp_user_id \<lparr>cp_user_id = 7, cp_name = ''Shop'', cp_description = None,
              cp_ai_prompt = ''a shop''\<rparr> \<notin> user_id ` set (users shop_db)"
    by (simp add: shop_db_def ada_def)
  from createProject_unknown_user [OF h, of 5] h show ?thesis
    by simp
qed

section \<open>Characters and replacements\<close>

lemma alnum_not_hyphen: "is_alnum c \<Longrightarrow> \<not> is_hyphen c"
  by (auto simp: is_alnum_def is_hyphen_def)

lemma alnum_not_space: "is_alnum c \<Longrightarrow> \<not> is_space c"
  by (auto simp: is_alnum_def is_space_def Let_def)

lemma hyphen_not_alnum: "\<not> is_alnum CHR ''-''"
  by (simp add: is_alnum_def)

lemma dropWhile_head: "dropWhile P s = [] \<or> \<not> P (hd (dropWhile P s))"
  by (metis hd_dropWhile)

lemma collapse_after_run: "replace_runs is_hyphen ''-'' (dropWhile is_hyphen s) = [] \<or> \<not> is_hyphen (hd (replace_runs is_hyphen ''-'' (dropWhile is_hyphen s)))"
proof (cases "dropWhile is_hyphen s")
  case Nil then show ?thesis by (simp del: dropWhile_eq_Nil_conv)
next
  case (Cons d ds)
  then have "\<not> is_hyphen d" using dropWhile_head [of is_hyphen s] by simp
  with Cons show ?thesis by simp
qed

lemma no_double_hyphen_Cons: "no_double_hyphen (c # s) = ((s = [] \<or> \<not> (is_hyphen c \<and> is_hyphen (hd s))) \<and> no_double_hyphen s)"
  by (cases s) auto

lemma collapse_no_double_hyphen: "no_double_hyphen (replace_runs is_hyphen ''-'' s)"
proof (induction "is_hyphen" "''-''" s rule: replace_runs.induct)
  case 1 show ?case by simp
next
  case (2 c cs)
  show ?case
  proof (cases "is_hyphen c")
    case True
    with 2 collapse_after_run [of cs] show ?thesis
      by (auto simp: no_double_hyphen_Cons)
  next
    case False
    with 2 show ?thesis by (auto simp: no_double_hyphen_Cons)
  qed
qed

lemma replace_runs_set: "set (replace_runs P r s) \<subseteq> set r \<union> {c \<in> set s. \<not> P c}"
proof (induction P r s rule: replace_runs.induct)
  case (1 P r) show ?case by simp
next
  case (2 P r c cs)
  have "set (dropWhile P cs) \<subseteq> set cs" by (simp add: set_dropWhileD subsetI)
  with 2 show ?case by (auto split: if_splits)
qed

lemma filter_dropWhile_disjoint:
  "(\<And>c. Q c \<Longrightarrow> \<not> P c) \<Longrightarrow> filter Q (dropWhile P cs) = filter Q cs"
  by (induction cs) auto

lemma replace_runs_filter:
  assumes "\<And>c. Q c \<Longrightarrow> \<not> P c" "filter Q r = []"
  shows "filter Q (replace_runs P r s) = filter Q s"
  using assms
proof (induction P r s rule: replace_runs.induct)
  case (1 P r) show ?case by simp
next
  case (2 P r c cs)
  show ?case
  proof (cases "P c")
    case True
    then have "\<not> Q c" using "2.prems"(1) by blast
    with True 2 show ?thesis
      by (simp add: filter_dropWhile_disjoint)
  next
    case False
    with 2 show ?thesis by simp
  qed
qed

lemma replace_each_filter:
  assumes "\<And>c. Q c \<Longrightarrow> \<not> P c" "filter Q r = []"
  shows "filter Q (replace_each P r s) = filter Q s"
  using assms by (induction s) (auto simp: replace_each_def)

lemma strip_edge_hyphens_filter:
  assumes "\<And>c. Q c \<Longrightarrow> \<not> is_hyphen c"
  shows "filter Q (strip_edge_hyphens s) = filter Q s"
proof -
  have b: "filter Q (butlast t) = filter Q t" if "t \<noteq> []" "is_hyphen (last t)" for t
  proof -
    from that have "t = butlast t @ [last t]" by simp
    then have "filter Q t = filter Q (butlast t) @ filter Q [last t]"
      by (metis filter_append)
    with that assms show ?thesis by auto
  qed
  show ?thesis
    using assms by (cases s) (auto simp: strip_edge_hyphens_def Let_def b)
qed

lemma baseSlug_alnum_content:
  "filter is_alnum (createProject_baseSlug name) = filter is_alnum (toLowerCase name)"
  by (simp add: createProject_baseSlug_def strip_edge_hyphens_filter alnum_not_hyphen
      replace_runs_filter replace_each_filter alnum_not_space hyphen_not_alnum is_slug_char_def)

lemma replace_each_slug_chars: "list_all is_slug_char (replace_each (\<lambda>c. \<not> is_slug_char c) ''-'' s)"
  by (induction s) (auto simp: replace_each_def is_slug_char_def is_hyphen_def)

lemma collapse_slug_chars:
  "list_all is_slug_char s \<Longrightarrow> list_all is_slug_char (replace_runs is_hyphen ''-'' s)"
  using replace_runs_set [of is_hyphen "''-''" s]
  by (auto simp: list_all_iff is_slug_char_def is_hyphen_def)

lemma slug_regex_of_clean:
  assumes "list_all is_slug_char s" "no_double_hyphen s" "s = [] \<or> \<not> is_hyphen (last s)"
  shows "slug_regex_rest s \<and> (s \<noteq> [] \<and> \<not> is_hyphen (hd s) \<longrightarrow> slug_regex s)"
  using assms
proof (induction s)
  case Nil then show ?case by simp
next
  case (Cons c cs)
  then have ih: "slug_regex_rest cs" "cs \<noteq> [] \<and> \<not> is_hyphen (hd cs) \<longrightarrow> slug_regex cs"
    by (auto simp: no_double_hyphen_Cons split: if_splits)
  from Cons.prems have c: "is_alnum c \<or> is_hyphen c" by (simp add: is_slug_char_def)
  show ?case
  proof (cases "is_hyphen c")
    case True
    with Cons.prems have "cs \<noteq> []" "\<not> is_hyphen (hd cs)"
      by (auto simp: no_double_hyphen_Cons)
    with True ih show ?thesis by simp
  next
    case False
    with c ih show ?thesis by simp
  qed
qed

lemma no_double_hyphen_append:
  "no_double_hyphen (xs @ ys) =
     (no_double_hyphen xs \<and> no_double_hyphen ys
      \<and> (xs = [] \<or> ys = [] \<or> \<not> (is_hyphen (last xs) \<and> is_hyphen (hd ys))))"
  by (induction xs) (auto simp: no_double_hyphen_Cons)

lemma butlast_clean:
  assumes "list_all is_slug_char t" "no_double_hyphen t" "t \<noteq> []" "is_hyphen (last t)"
  shows "list_all is_slug_char (butlast t) \<and> no_double_hyphen (butlast t)
         \<and> (butlast t = [] \<or> \<not> is_hyphen (last (butlast t)))
         \<and> (butlast t \<noteq> [] \<longrightarrow> hd (butlast t) = hd t)"
proof -
  from assms(3) have t: "t = butlast t @ [last t]" by simp
  from assms(1) have "list_all is_slug_char (butlast t)"
    by (metis t list_all_append)
  moreover from assms(2) have "no_double_hyphen (butlast t @ [last t])"
    using t by simp
  then have "no_double_hyphen (butlast t)" "butlast t = [] \<or> \<not> is_hyphen (last (butlast t))"
    using assms(4) by (auto simp: no_double_hyphen_append)
  moreover have "butlast t \<noteq> [] \<longrightarrow> hd (butlast t) = hd t"
    by (metis t hd_append2)
  ultimately show ?thesis by blast
qed

lemma strip_edge_hyphens_clean:
  assumes "list_all is_slug_char s" "no_double_hyphen s"
  shows "list_all is_slug_char (strip_edge_hyphens s) \<and> no_double_hyphen (strip_edge_hyphens s)
         \<and> (strip_edge_hyphens s = [] \<or>
             (\<not> is_hyphen (hd (strip_edge_hyphens s)) \<and> \<not> is_hyphen (last (strip_edge_hyphens s))))"
proof -
  define s1 where "s1 = (case s of [] \<Rightarrow> [] | c # cs \<Rightarrow> if is_hyphen c then cs else s)"
  have s1: "list_all is_slug_char s1" "no_double_hyphen s1" "s1 = [] \<or> \<not> is_hyphen (hd s1)"
    using assms by (auto simp: s1_def no_double_hyphen_Cons split: list.splits)
  have r: "strip_edge_hyphens s = (if s1 \<noteq> [] \<and> is_hyphen (last s1) then butlast s1 else s1)"
    by (simp add: strip_edge_hyphens_def s1_def)
  show ?thesis
  proof (cases "s1 \<noteq> [] \<and> is_hyphen (last s1)")
    case True
    with s1 butlast_clean [of s1] r show ?thesis by auto
  next
    case False
    with s1 r show ?thesis by auto
  qed
qed

lemma baseSlug_shape:
  "createProject_baseSlug name = [] \<or> slug_regex (createProject_baseSlug name)"
proof -
  let ?t = "replace_runs is_hyphen ''-''
              (replace_each (\<lambda>c. \<not> is_slug_char c) ''-''
                (replace_runs is_space ''-'' (toLowerCase name)))"
  have "list_all is_slug_char ?t" "no_double_hyphen ?t"
    by (simp_all add: collapse_slug_chars replace_each_slug_chars collapse_no_double_hyphen)
  then have c: "list_all is_slug_char (strip_edge_hyphens ?t)" "no_double_hyphen (strip_edge_hyphens ?t)"
     "strip_edge_hyphens ?t = [] \<or>
             (\<not> is_hyphen (hd (strip_edge_hyphens ?t)) \<and> \<not> is_hyphen (last (strip_edge_hyphens ?t)))"
    using strip_edge_hyphens_clean [of ?t] by blast+
  then show ?thesis
    using slug_regex_of_clean [of "strip_edge_hyphens ?t"]
    unfolding createProject_baseSlug_def by blast
qed

lemma slug_regex_has_alnum: "slug_regex s \<Longrightarrow> filter is_alnum s \<noteq> []"
  by (cases s) auto

lemma baseSlug_empty_iff:
  "createProject_baseSlug name = [] \<longleftrightarrow> \<not> list_ex is_alnum (toLowerCase name)"
proof
  assume "createProject_baseSlug name = []"
  then have "filter is_alnum (toLowerCase name) = []"
    using baseSlug_alnum_content [of name] by simp
  then show "\<not> list_ex is_alnum (toLowerCase name)"
    by (simp add: list_ex_iff filter_empty_conv)
next
  assume "\<not> list_ex is_alnum (toLowerCase name)"
  then have "filter is_alnum (createProject_baseSlug name) = []"
    by (simp add: baseSlug_alnum_content list_ex_iff filter_empty_conv)
  then show "createProject_baseSlug name = []"
    using baseSlug_shape [of name] slug_regex_has_alnum by blast
qed

section \<open>The shape of the base slug\<close>

text \<open>
  C6, as the code has it. For every name the base slug of \<open>createProject\<close> matches
  \<^verbatim>\<open>^[a-z0-9]+(-[a-z0-9]+)*$\<close> or is the empty string, and it is the empty string exactly
  when the lower-cased name has no character of \<^verbatim>\<open>[a-z0-9]\<close>: there is no fallback
  constant.
\<close>

theorem createProject_baseSlug_regex_or_empty:
  "(slug_regex (createProject_baseSlug name) \<or> createProject_baseSlug name = [])
   \<and> (createProject_baseSlug name = [] \<longleftrightarrow> \<not> list_ex is_alnum (toLowerCase name))"
  using baseSlug_shape [of name] baseSlug_empty_iff [of name] by blast

theorem createProject_baseSlug_regex_or_empty_witness:
  "list_ex is_alnum (toLowerCase ''A B  C!!'')
   \<and> slug_regex (createProject_baseSlug ''A B  C!!'')
   \<and> \<not> list_ex is_alnum (toLowerCase ''!!!'')
   \<and> createProject_baseSlug ''!!!'' = []"
proof -
  have a: "list_ex is_alnum (toLowerCase ''A B  C!!'')"
    by code_simp
  have b: "\<not> list_ex is_alnum (toLowerCase ''!!!'')"
    by code_simp
  from a b createProject_baseSlug_regex_or_empty [of "''A B  C!!''"]
    createProject_baseSlug_regex_or_empty [of "''!!!''"]
  show ?thesis by blast
qed

text \<open>
  As the specification states it (a match or a non-empty fallback, never the empty
  string) the property fails at the name \<^verbatim>\<open>!!!\<close>, which the input schema accepts: the
  base slug is the empty string, and the project is stored with it.
\<close>

theorem createProject_baseSlug_empty_counterexample:
  "createProject_baseSlug ''!!!'' = []
   \<and> \<not> slug_regex (createProject_baseSlug ''!!!'')
   \<and> created_slug (createProject shop_db 5 punctuation_only) = Some []"
proof -
  have e: "createProject_baseSlug ''!!!'' = []"
    by code_simp
  have "created_slug (createProject shop_db 5 punctuation_only) = Some []"
    by (simp add: createProject_def punctuation_only_def e slug_loop.simps insert_project_def
        created_slug_def shop_db_def shop_def ada_def Let_def)
  with e show ?thesis by simp
qed

section \<open>File creation and the tree invariant\<close>

lemma tree_invariant_iff:
  "tree_invariant fs \<longleftrightarrow>
     (\<forall>n \<in> set fs. \<forall>pp. file_parent_path n = Some pp \<longrightarrow>
        (\<exists>m \<in> set fs. file_id m \<noteq> file_id n \<and> file_is_folder m
            \<and> file_project_id m = file_project_id n \<and> file_path m = pp))"
  by (auto simp: tree_invariant_def list_all_iff list_ex_iff split: option.splits)

lemma createFile_success:
  assumes "\<exists>p \<in> set (projects st). project_id p = cf_project_id input"
  shows "createFile st now input =
           (Inr \<lparr>file_id = files_id_seq st, file_project_id = cf_project_id input,
                 file_path = cf_path input, file_name = cf_name input,
                 file_content = cf_content input, file_is_folder = cf_is_folder input,
                 file_parent_path = cf_parent_path input,
                 file_created_at = now, file_updated_at = now\<rparr>,
            st\<lparr>files := files st @
                   [\<lparr>file_id = files_id_seq st, file_project_id = cf_project_id input,
                     file_path = cf_path input, file_name = cf_name input,
                     file_content = cf_content input, file_is_folder = cf_is_folder input,
                     file_parent_path = cf_parent_path input,
                     file_created_at = now, file_updated_at = now\<rparr>],
                files_id_seq := Suc (files_id_seq st)\<rparr>)"
proof -
  from assms have "filter (\<lambda>p. project_id p = cf_project_id input) (projects st) \<noteq> []"
    by (simp add: filter_empty_conv)
  then show ?thesis
    by (simp add: createFile_def insert_file_def Let_def)
qed

text \<open>
  C8, as the code has it. \<open>createFile\<close> checks only that the project exists and stores
  \<open>parent_path\<close> as given. In a store that satisfies the tree invariant and whose keys
  come from the sequence, a call for an existing project succeeds and appends one node;
  the resulting store satisfies the invariant exactly when the input's \<open>parent_path\<close> is
  null or the path of a folder node of that project already stored: for any other
  \<open>parent_path\<close> the node is stored all the same and breaks the invariant.
\<close>

theorem createFile_keeps_tree_invariant:
  assumes inv: "tree_invariant (files st)"
    and fresh: "\<forall>f \<in> set (files st). file_id f < files_id_seq st"
    and proj: "\<exists>p \<in> set (projects st). project_id p = cf_project_id input"
  shows "\<exists>f st'. createFile st now input = (Inr f, st')
           \<and> files st' = files st @ [f]
           \<and> file_parent_path f = cf_parent_path input
           \<and> (tree_invariant (files st')
                \<longleftrightarrow> (cf_parent_path input = None
                     \<or> (\<exists>m \<in> set (files st). file_is_folder m
                            \<and> file_project_id m = cf_project_id input
                            \<and> cf_parent_path input = Some (file_path m))))"
proof -
  let ?f = "\<lparr>file_id = files_id_seq st, file_project_id = cf_project_id input,
             file_path = cf_path input, file_name = cf_name input,
             file_content = cf_content input, file_is_folder = cf_is_folder input,
             file_parent_path = cf_parent_path input,
             file_created_at = now, file_updated_at = now\<rparr>"
  have "tree_invariant (files st @ [?f])"
    if par: "cf_parent_path input = None
             \<or> (\<exists>m \<in> set (files st). file_is_folder m
                    \<and> file_project_id m = cf_project_id input
                    \<and> cf_parent_path input = Some (file_path m))"
    unfolding tree_invariant_iff
  proof (intro ballI allI impI)
    fix n pp
    assume n: "n \<in> set (files st @ [?f])" and pp: "file_parent_path n = Some pp"
    show "\<exists>m \<in> set (files st @ [?f]). file_id m \<noteq> file_id n \<and> file_is_folder m
            \<and> file_project_id m = file_project_id n \<and> file_path m = pp"
    proof (cases "n \<in> set (files st)")
      case True
      with inv pp obtain m where "m \<in> set (files st)" "file_id m \<noteq> file_id n" "file_is_folder m"
          "file_project_id m = file_project_id n" "file_path m = pp"
        unfolding tree_invariant_iff by blast
      then show ?thesis by auto
    next
      case False
      with n have nf: "n = ?f" by simp
      with pp par obtain m where m: "m \<in> set (files st)" "file_is_folder m"
          "file_project_id m = cf_project_id input" "file_path m = pp"
        by auto
      with fresh have "file_id m \<noteq> file_id n" using nf by auto
      with m nf show ?thesis by auto
    qed
  qed
  moreover have "cf_parent_path input = None
             \<or> (\<exists>m \<in> set (files st). file_is_folder m
                    \<and> file_project_id m = cf_project_id input
                    \<and> cf_parent_path input = Some (file_path m))"
    if t: "tree_invariant (files st @ [?f])"
  proof (cases "cf_parent_path input")
    case None
    then show ?thesis by simp
  next
    case (Some pp)
    have "?f \<in> set (files st @ [?f])" "file_parent_path ?f = Some pp"
      by (simp_all add: Some)
    with t obtain m where m: "m \<in> set (files st @ [?f])" "file_id m \<noteq> file_id ?f"
        "file_is_folder m" "file_project_id m = file_project_id ?f" "file_path m = pp"
      unfolding tree_invariant_iff by blast
    from m(1,2) have "m \<in> set (files st)"
      by auto
    with m(3,4,5) Some show ?thesis
      by auto
  qed
  ultimately have keep: "tree_invariant (files st @ [?f])
               \<longleftrightarrow> (cf_parent_path input = None
                    \<or> (\<exists>m \<in> set (files st). file_is_folder m
                           \<and> file_project_id m = cf_project_id input
                           \<and> cf_parent_path input = Some (file_path m)))"
    by blast
  let ?st' = "st\<lparr>files := files st @ [?f], files_id_seq := Suc (files_id_seq st)\<rparr>"
  have "createFile st now input = (Inr ?f, ?st')"
    by (rule createFile_success [OF proj])
  moreover have "files ?st' = files st @ [?f]" "file_parent_path ?f = cf_parent_path input"
    by simp_all
  ultimately show ?thesis
    using keep by (metis (no_types, lifting))
qed

theorem createFile_keeps_tree_invariant_witness:
  "tree_invariant (files shop_db)
   \<and> cf_parent_path src_b = Some ''/src''
   \<and> tree_invariant (files (snd (createFile shop_db 5 src_b)))
   \<and> cf_parent_path (src_b\<lparr>cf_parent_path := Some ''/lib''\<rparr>) = Some ''/lib''
   \<and> \<not> tree_invariant
         (files (snd (createFile shop_db 5 (src_b\<lparr>cf_parent_path := Some ''/lib''\<rparr>))))"
proof -
  have inv: "tree_invariant (files shop_db)"
    by (simp add: tree_invariant_def shop_db_def)
  have fresh: "\<forall>f \<in> set (files shop_db). file_id f < files_id_seq shop_db"
    by (simp add: shop_db_def)
  have proj: "\<exists>p \<in> set (projects shop_db). project_id p = cf_project_id src_b"
    by (simp add: shop_db_def shop_def src_b_def)
  have par: "cf_parent_path src_b = None
     \<or> (\<exists>m \<in> set (files shop_db). file_is_folder m \<and> file_project_id m = cf_project_id src_b
            \<and> cf_parent_path src_b = Some (file_path m))"
    by (simp add: shop_db_def src_b_def)
  from createFile_keeps_tree_invariant [OF inv fresh proj, of 5] par
  have kept: "tree_invariant (files (snd (createFile shop_db 5 src_b)))"
    by auto
  let ?orphan = "src_b\<lparr>cf_parent_path := Some ''/lib''\<rparr>"
  have proj': "\<exists>p \<in> set (projects shop_db). project_id p = cf_project_id ?orphan"
    by (simp add: shop_db_def shop_def src_b_def)
  have par': "\<not> (cf_parent_path ?orphan = None
     \<or> (\<exists>m \<in> set (files shop_db). file_is_folder m \<and> file_project_id m = cf_project_id ?orphan
            \<and> cf_parent_path ?orphan = Some (file_path m)))"
    by (simp add: shop_db_def src_b_def)
  from createFile_keeps_tree_invariant [OF inv fresh proj', of 5] par'
  have broken: "\<not> tree_invariant (files (snd (createFile shop_db 5 ?orphan)))"
    by auto
  from inv kept broken show ?thesis by (simp add: src_b_def)
qed

text \<open>
  As the specification states it (every successful call keeps the invariant) the
  property fails when the input names a parent that is no stored folder: the call
  succeeds all the same and the stored node breaks the invariant.
\<close>

theorem createFile_orphan_counterexample:
  "tree_invariant (files shop_db)
   \<and> \<not> list_ex (\<lambda>m. file_is_folder m \<and> file_path m = ''/docs'') (files shop_db)
   \<and> fst (createFile shop_db 5 docs_readme) \<noteq> Inl (ProjectNotFound 1)
   \<and> map file_parent_path (files (snd (createFile shop_db 5 docs_readme)))
       = [None, Some ''/src'', Some ''/docs'']
   \<and> \<not> tree_invariant (files (snd (createFile shop_db 5 docs_readme)))"
  by (simp add: createFile_def insert_file_def tree_invariant_def shop_db_def shop_def docs_readme_def Let_def)

section \<open>Lower-casing and the sanitizer\<close>

lemma of_char_toLowerChar:
  "of_char (toLowerChar c) = (if is_upper_char c then of_char c + 32 else (of_char c :: nat))"
  by (auto simp: toLowerChar_def is_upper_char_def Let_def)

lemma is_space_toLowerChar [simp]: "is_space (toLowerChar c) = is_space c"
  unfolding is_space_def of_char_toLowerChar
  by (auto simp: is_upper_char_def Let_def)

lemma is_hyphen_iff: "is_hyphen c \<longleftrightarrow> (of_char c :: nat) = 45"
proof -
  have "(of_char c :: nat) = of_char CHR ''-'' \<longleftrightarrow> c = CHR ''-''"
    by (metis char_of_char)
  then show ?thesis by (simp add: is_hyphen_def)
qed

lemma is_hyphen_toLowerChar [simp]: "is_hyphen (toLowerChar c) = is_hyphen c"
  unfolding is_hyphen_iff of_char_toLowerChar
  by (auto simp: is_upper_char_def Let_def)

lemma replace_each_Nil: "replace_each P [] s = filter (\<lambda>c. \<not> P c) s"
  by (induction s) (simp_all add: replace_each_def)

lemma dropWhile_no_head: "s = [] \<or> \<not> P (hd s) \<Longrightarrow> dropWhile P s = s"
  by (cases s) auto

lemma collapse_dropWhile:
  "replace_runs is_hyphen ''-'' (dropWhile is_hyphen s)
     = dropWhile is_hyphen (replace_runs is_hyphen ''-'' s)"
proof (cases s)
  case Nil then show ?thesis by simp
next
  case (Cons c cs)
  show ?thesis
  proof (cases "is_hyphen c")
    case True
    have "dropWhile is_hyphen (replace_runs is_hyphen ''-'' (dropWhile is_hyphen cs))
            = replace_runs is_hyphen ''-'' (dropWhile is_hyphen cs)"
      using collapse_after_run [of cs] by (rule dropWhile_no_head)
    with True Cons show ?thesis by (simp add: is_hyphen_def)
  next
    case False
    with Cons show ?thesis by simp
  qed
qed

lemma collapse_runs_as_map:
  "replace_runs is_hyphen ''-'' (replace_runs P ''-'' u)
     = replace_runs is_hyphen ''-'' (map (\<lambda>c. if P c then CHR ''-'' else c) u)"
proof (induction P "''-''" u rule: replace_runs.induct)
  case (1 P) show ?case by simp
next
  case (2 P c cs)
  let ?f = "\<lambda>c. if P c then CHR ''-'' else c"
  let ?col = "replace_runs is_hyphen ''-''"
  show ?case
  proof (cases "P c")
    case True
    then have ih: "?col (replace_runs P ''-'' (dropWhile P cs)) = ?col (map ?f (dropWhile P cs))"
      using 2 by simp
    have "dropWhile is_hyphen (map ?f (takeWhile P cs) @ map ?f (dropWhile P cs))
            = dropWhile is_hyphen (map ?f (dropWhile P cs))"
      by (rule dropWhile_append2) (auto simp: is_hyphen_def dest: set_takeWhileD)
    then have d: "dropWhile is_hyphen (map ?f cs) = dropWhile is_hyphen (map ?f (dropWhile P cs))"
      by (simp only: map_append [symmetric] takeWhile_dropWhile_id)
    have "?col (dropWhile is_hyphen (replace_runs P ''-'' (dropWhile P cs)))
            = ?col (dropWhile is_hyphen (map ?f cs))"
      by (simp only: collapse_dropWhile ih d)
    with True show ?thesis by (simp add: is_hyphen_def)
  next
    case False
    then have ih: "?col (replace_runs P ''-'' cs) = ?col (map ?f cs)"
      using 2 by simp
    show ?thesis
    proof (cases "is_hyphen c")
      case True
      have "?col (dropWhile is_hyphen (replace_runs P ''-'' cs)) = ?col (dropWhile is_hyphen (map ?f cs))"
        by (simp only: collapse_dropWhile ih)
      with True \<open>\<not> P c\<close> show ?thesis by simp
    next
      case h: False
      with \<open>\<not> P c\<close> ih show ?thesis by simp
    qed
  qed
qed

lemma butlast_no_double_hyphen:
  assumes "no_double_hyphen t" "t \<noteq> []" "is_hyphen (last t)"
  shows "butlast t = [] \<or> \<not> is_hyphen (last (butlast t))"
proof -
  from assms(2) have "t = butlast t @ [last t]" by simp
  with assms(1) have "no_double_hyphen (butlast t @ [last t])" by simp
  with assms(3) show ?thesis by (auto simp: no_double_hyphen_append)
qed

lemma rev_dropWhile_rev_last:
  "rev (dropWhile P (rev t)) = (if t \<noteq> [] \<and> P (last t) then rev (dropWhile P (rev (butlast t))) else t)"
  by (cases t rule: rev_cases) auto

lemma strip_edge_is_trim:
  assumes "no_double_hyphen t"
  shows "strip_edge_hyphens t = trim_hyphens t"
proof -
  define s1 where "s1 = (case t of [] \<Rightarrow> [] | c # cs \<Rightarrow> if is_hyphen c then cs else t)"
  have s1: "no_double_hyphen s1" "dropWhile is_hyphen t = s1"
    using assms by (auto simp: s1_def no_double_hyphen_Cons dropWhile_no_head split: list.splits)
  have r: "rev (dropWhile is_hyphen (rev s1))
             = (if s1 \<noteq> [] \<and> is_hyphen (last s1) then rev (dropWhile is_hyphen (rev (butlast s1))) else s1)"
    by (rule rev_dropWhile_rev_last)
  have "rev (dropWhile is_hyphen (rev s1)) = (if s1 \<noteq> [] \<and> is_hyphen (last s1) then butlast s1 else s1)"
  proof (cases "s1 \<noteq> [] \<and> is_hyphen (last s1)")
    case True
    with s1 have "butlast s1 = [] \<or> \<not> is_hyphen (last (butlast s1))"
      using butlast_no_double_hyphen by blast
    then have "rev (butlast s1) = [] \<or> \<not> is_hyphen (hd (rev (butlast s1)))"
      by (auto simp: hd_rev)
    then have "dropWhile is_hyphen (rev (butlast s1)) = rev (butlast s1)"
      by (rule dropWhile_no_head)
    with True r show ?thesis
      by simp
  next
    case False
    with r show ?thesis by auto
  qed
  then show ?thesis
    by (simp add: strip_edge_hyphens_def trim_hyphens_def s1 s1_def [symmetric])
qed

lemma toLowerCase_hyphenate_spaces:
  "toLowerCase (hyphenate_spaces n) = hyphenate_spaces (toLowerCase n)"
proof -
  have "toLowerChar CHR ''-'' = CHR ''-''" by code_simp
  then show ?thesis
    by (simp add: toLowerCase_def hyphenate_spaces_def)
qed

lemma filter_slug_hyphenate_spaces:
  "filter is_slug_char (hyphenate_spaces v)
     = hyphenate_spaces (filter (\<lambda>c. is_alnum c \<or> is_space c \<or> is_hyphen c) v)"
proof -
  have "is_slug_char (if is_space c then CHR ''-'' else c) = (is_alnum c \<or> is_space c \<or> is_hyphen c)" for c
    by (auto simp: is_slug_char_def is_hyphen_def)
  then show ?thesis
    by (simp add: hyphenate_spaces_def filter_map comp_def)
qed

lemma sanitizeProjectName_as_spec:
  "sanitizeProjectName n = spec_manifest_identifier (hyphenate_spaces n)"
proof -
  let ?u = "filter (\<lambda>c. is_alnum c \<or> is_space c \<or> is_hyphen c) (toLowerCase n)"
  have "sanitizeProjectName n
          = strip_edge_hyphens (replace_runs is_hyphen ''-'' (replace_runs is_space ''-'' ?u))"
    by (simp add: sanitizeProjectName_def replace_each_Nil)
  also have "\<dots> = strip_edge_hyphens (replace_runs is_hyphen ''-'' (hyphenate_spaces ?u))"
    by (simp add: collapse_runs_as_map hyphenate_spaces_def)
  also have "\<dots> = trim_hyphens (replace_runs is_hyphen ''-'' (hyphenate_spaces ?u))"
    by (rule strip_edge_is_trim) (rule collapse_no_double_hyphen)
  also have "\<dots> = spec_manifest_identifier (hyphenate_spaces n)"
    by (simp add: spec_manifest_identifier_def toLowerCase_hyphenate_spaces filter_slug_hyphenate_spaces)
  finally show ?thesis .
qed

lemma strip_edge_hyphens_set: "set (strip_edge_hyphens s) \<subseteq> set s"
  by (cases s) (auto simp: strip_edge_hyphens_def Let_def dest: in_set_butlastD)

lemma sanitizeProjectName_slug_chars: "list_all is_slug_char (sanitizeProjectName n)"
proof -
  let ?u = "replace_each (\<lambda>c. \<not> (is_alnum c \<or> is_space c \<or> is_hyphen c)) [] (toLowerCase n)"
  have "set (replace_runs is_space ''-'' ?u) \<subseteq> {c. is_slug_char c}"
    using replace_runs_set [of is_space "''-''" ?u]
    by (auto simp: replace_each_Nil is_slug_char_def is_hyphen_def)
  then have "set (replace_runs is_hyphen ''-'' (replace_runs is_space ''-'' ?u)) \<subseteq> {c. is_slug_char c}"
    using replace_runs_set [of is_hyphen "''-''" "replace_runs is_space ''-'' ?u"]
    by (auto simp: is_slug_char_def is_hyphen_def)
  then show ?thesis
    using strip_edge_hyphens_set
    by (fastforce simp: sanitizeProjectName_def list_all_iff)
qed

section \<open>The manifest identifier of the generated package.json\<close>

lemma quote_not_slug_char: "\<not> is_slug_char (CHR 0x22)"
  by (simp add: is_slug_char_def is_alnum_def is_hyphen_def)

lemma takeWhile_ident:
  assumes "list_all is_slug_char ident"
  shows "takeWhile (\<lambda>c. c \<noteq> CHR 0x22) (ident @ rest) = ident @ takeWhile (\<lambda>c. c \<noteq> CHR 0x22) rest"
proof (rule takeWhile_append2)
  fix x assume "x \<in> set ident"
  with assms have "is_slug_char x" by (simp add: list_all_iff)
  then show "x \<noteq> CHR 0x22" using quote_not_slug_char by auto
qed

lemmas sanitized_takeWhile = takeWhile_ident [OF sanitizeProjectName_slug_chars]

lemma manifest_React:
  "map (\<lambda>f. (gen_path f, manifest_name (gen_content f)))
     (filter (\<lambda>f. gen_name f = ''package.json'') (generateReactProject n))
   = [(''/package.json'', Some (sanitizeProjectName n))]"
  by (simp add: generateReactProject_def manifest_name_def sanitized_takeWhile)

lemma manifest_API:
  "map (\<lambda>f. (gen_path f, manifest_name (gen_content f)))
     (filter (\<lambda>f. gen_name f = ''package.json'') (generateAPIProject n))
   = [(''/package.json'', Some (sanitizeProjectName n))]"
  by (simp add: generateAPIProject_def manifest_name_def sanitized_takeWhile)

lemma manifest_Basic:
  "map (\<lambda>f. (gen_path f, manifest_name (gen_content f)))
     (filter (\<lambda>f. gen_name f = ''package.json'') (generateBasicProject n))
   = [(''/package.json'', Some (sanitizeProjectName n))]"
  by (simp add: generateBasicProject_def manifest_name_def sanitized_takeWhile)

lemma manifest_FullStack:
  "map (\<lambda>f. (gen_path f, manifest_name (gen_content f)))
     (filter (\<lambda>f. gen_name f = ''package.json'') (generateFullStackProject n))
   = [(''/package.json'', Some (sanitizeProjectName n)),
      (''/frontend/package.json'', Some (sanitizeProjectName n @ ''-frontend'')),
      (''/backend/package.json'', Some (sanitizeProjectName n @ ''-backend''))]"
  by (simp add: generateFullStackProject_def manifest_name_def sanitized_takeWhile)

lemma generateFilesFromPrompt_cases:
  "generateFilesFromPrompt p n \<in>
     {generateFullStackProject n, generateAPIProject n, generateReactProject n, generateBasicProject n}"
  by (simp add: generateFilesFromPrompt_def Let_def)

lemma manifest_identifiers_generated:
  "manifest_identifiers (generateFilesFromPrompt p n) = [(''/package.json'', Some (sanitizeProjectName n))]
   \<or> manifest_identifiers (generateFilesFromPrompt p n) =
       [(''/package.json'', Some (sanitizeProjectName n)),
        (''/frontend/package.json'', Some (sanitizeProjectName n @ ''-frontend'')),
        (''/backend/package.json'', Some (sanitizeProjectName n @ ''-backend''))]"
  using generateFilesFromPrompt_cases [of p n]
  by (auto simp: manifest_identifiers_def manifest_React manifest_API manifest_Basic manifest_FullStack)

text \<open>
  C9, as the code has it. For every prompt and project name the generated list has a
  root \<^verbatim>\<open>/package.json\<close> whose identifier is \<open>sanitizeProjectName\<close> of the name, and
  every generated package.json carries that identifier, followed by \<^verbatim>\<open>-frontend\<close> or
  \<^verbatim>\<open>-backend\<close> in the two workspace manifests of the full-stack archetype. The
  sanitizer is the specification's routine (lower-case, strip what is outside
  \<^verbatim>\<open>[a-z0-9-]\<close>, collapse hyphens, trim the edges) applied to the name with each
  whitespace character turned into a hyphen first: whitespace becomes a hyphen, it
  is not removed.
\<close>

theorem generated_manifest_identifier:
  "(''/package.json'', Some (sanitizeProjectName projectName))
     \<in> set (manifest_identifiers (generateFilesFromPrompt aiPrompt projectName))
   \<and> (\<forall>(path, ident) \<in> set (manifest_identifiers (generateFilesFromPrompt aiPrompt projectName)).
         ident = Some (sanitizeProjectName projectName @ workspace_suffix path))
   \<and> sanitizeProjectName projectName = spec_manifest_identifier (hyphenate_spaces projectName)"
  using manifest_identifiers_generated [of aiPrompt projectName]
    sanitizeProjectName_as_spec [of projectName]
  by (auto simp: workspace_suffix_def)

theorem generated_manifest_identifier_witness:
  "(''/frontend/package.json'', Some ''my-app-frontend'')
     \<in> set (manifest_identifiers (generateFilesFromPrompt ''a fullstack shop'' ''My App''))
   \<and> sanitizeProjectName ''My App'' = ''my-app''
   \<and> spec_manifest_identifier (hyphenate_spaces ''My App'') = ''my-app''"
proof -
  have "toLowerCase ''a fullstack shop'' = ''a fullstack shop''"
    by code_simp
  then have g: "generateFilesFromPrompt ''a fullstack shop'' ''My App'' = generateFullStackProject ''My App''"
    by (simp add: generateFilesFromPrompt_def)
  have s: "sanitizeProjectName ''My App'' = ''my-app''"
    by code_simp
  have m: "(''/frontend/package.json'', Some ''my-app-frontend'')
     \<in> set (manifest_identifiers (generateFilesFromPrompt ''a fullstack shop'' ''My App''))"
    by (simp add: g manifest_identifiers_def manifest_FullStack s)
  from generated_manifest_identifier [of "''My App''" "''a fullstack shop''"] m s
  show ?thesis by simp
qed

text \<open>
  As the specification states it (whitespace is removed) the property fails at the
  name \<^verbatim>\<open>My App\<close>: the generated manifest carries \<^verbatim>\<open>my-app\<close>, the specification's routine
  gives \<^verbatim>\<open>myapp\<close>.
\<close>

theorem manifest_identifier_whitespace_counterexample:
  "manifest_identifiers (generateFilesFromPrompt ''a todo list'' ''My App'')
     = [(''/package.json'', Some ''my-app'')]
   \<and> spec_manifest_identifier ''My App'' = ''myapp''"
proof -
  have "toLowerCase ''a todo list'' = ''a todo list''"
    by code_simp
  then have "generateFilesFromPrompt ''a todo list'' ''My App'' = generateBasicProject ''My App''"
    by (simp add: generateFilesFromPrompt_def)
  moreover have "sanitizeProjectName ''My App'' = ''my-app''"
    by code_simp
  moreover have "spec_manifest_identifier ''My App'' = ''myapp''"
    by code_simp
  ultimately show ?thesis
    by (simp add: manifest_identifiers_def manifest_Basic)
qed

section \<open>The classifier\<close>

lemma prefix_iff_take: "prefix xs ys \<longleftrightarrow> take (length xs) ys = xs"
  by (metis append_eq_conv_conj prefix_def append_take_drop_id)

lemma includes_str_iff:
  "includes_str s sub \<longleftrightarrow> (\<exists>i \<le> length s. take (length sub) (drop i s) = sub)"
proof (induction s)
  case Nil
  show ?case by auto
next
  case (Cons c cs)
  have "(\<exists>i \<le> length (c # cs). take (length sub) (drop i (c # cs)) = sub)
        \<longleftrightarrow> take (length sub) (c # cs) = sub \<or> (\<exists>i \<le> length cs. take (length sub) (drop i cs) = sub)"
    (is "?L \<longleftrightarrow> ?A \<or> ?B")
  proof
    assume ?L
    then obtain i where i: "i \<le> length (c # cs)" "take (length sub) (drop i (c # cs)) = sub" by blast
    show "?A \<or> ?B"
    proof (cases i)
      case 0 with i show ?thesis by simp
    next
      case (Suc j) with i show ?thesis by auto
    qed
  next
    assume "?A \<or> ?B"
    then show ?L
    proof
      assume ?A then show ?L by (intro exI [of _ 0]) simp
    next
      assume ?B
      then obtain j where "j \<le> length cs" "take (length sub) (drop j cs) = sub" by blast
      then show ?L by (intro exI [of _ "Suc j"]) simp
    qed
  qed
  with Cons show ?case
    by (simp add: prefix_iff_take del: prefix_code)
qed

lemma includes_lower_ci:
  assumes "map toLowerChar kw = kw"
  shows "includes_str (toLowerCase p) kw = contains_ci p kw"
proof -
  have "contains_ci p kw \<longleftrightarrow> (\<exists>i \<le> length p. map toLowerChar (take (length kw) (drop i p)) = map toLowerChar kw)"
  proof -
    have "set [0..<Suc (length p)] = {i. i \<le> length p}" by auto
    then show ?thesis by (simp add: contains_ci_def list_ex_iff)
  qed
  also have "\<dots> \<longleftrightarrow> (\<exists>i \<le> length (toLowerCase p). take (length kw) (drop i (toLowerCase p)) = kw)"
    by (simp add: toLowerCase_def take_map drop_map assms)
  finally show ?thesis
    by (simp add: includes_str_iff)
qed

lemma keywords_lower_case:
  "map toLowerChar ''full stack'' = ''full stack''"
  "map toLowerChar ''fullstack'' = ''fullstack''"
  "map toLowerChar ''api'' = ''api''"
  "map toLowerChar ''backend'' = ''backend''"
  "map toLowerChar ''server'' = ''server''"
  "map toLowerChar ''express'' = ''express''"
  "map toLowerChar ''node.js'' = ''node.js''"
  "map toLowerChar ''react'' = ''react''"
  "map toLowerChar ''frontend'' = ''frontend''"
  "map toLowerChar ''ui'' = ''ui''"
  by code_simp+

lemmas includes_keyword = keywords_lower_case [THEN includes_lower_ci]

text \<open>
  C3. For every prompt, \<open>generateFilesFromPrompt\<close> returns the template of the
  archetype that the first matching rule gives, the rules being tried in the order
  FullStack (\<^verbatim>\<open>full stack\<close>, \<^verbatim>\<open>fullstack\<close>), API (\<^verbatim>\<open>api\<close>, \<^verbatim>\<open>backend\<close>, \<^verbatim>\<open>server\<close>,
  \<^verbatim>\<open>express\<close>, \<^verbatim>\<open>node.js\<close>), Frontend (\<^verbatim>\<open>react\<close>, \<^verbatim>\<open>frontend\<close>, \<^verbatim>\<open>ui\<close>), Basic,
  each keyword searched as a substring without regard to case.
\<close>

theorem generateFilesFromPrompt_classify:
  "generateFilesFromPrompt aiPrompt projectName = synthesize (classify aiPrompt) projectName"
  unfolding generateFilesFromPrompt_def Let_def includes_keyword
  by (simp add: classify_def synthesize_def)

theorem generateFilesFromPrompt_classify_witness:
  "classify ''Full Stack React shop'' = FullStack
   \<and> generateFilesFromPrompt ''Full Stack React shop'' ''Shop'' = generateFullStackProject ''Shop''
   \<and> classify ''React on a BACKEND'' = API
   \<and> generateFilesFromPrompt ''React on a BACKEND'' ''Shop'' = generateAPIProject ''Shop''
   \<and> classify ''a React gallery'' = Frontend
   \<and> generateFilesFromPrompt ''a React gallery'' ''Shop'' = generateReactProject ''Shop''
   \<and> classify ''a todo list'' = Basic
   \<and> generateFilesFromPrompt ''a todo list'' ''Shop'' = generateBasicProject ''Shop''"
proof -
  have l: "toLowerCase ''Full Stack React shop'' = ''full stack react shop''"
    "toLowerCase ''React on a BACKEND'' = ''react on a backend''"
    "toLowerCase ''a React gallery'' = ''a react gallery''"
    "toLowerCase ''a todo list'' = ''a todo list''"
    by code_simp+
  have c: "classify ''Full Stack React shop'' = FullStack"
    "classify ''React on a BACKEND'' = API"
    "classify ''a React gallery'' = Frontend"
    "classify ''a todo list'' = Basic"
    unfolding classify_def includes_keyword [symmetric] l
    by simp_all
  from c generateFilesFromPrompt_classify [of "''Full Stack React shop''" "''Shop''"]
    generateFilesFromPrompt_classify [of "''React on a BACKEND''" "''Shop''"]
    generateFilesFromPrompt_classify [of "''a React gallery''" "''Shop''"]
    generateFilesFromPrompt_classify [of "''a todo list''" "''Shop''"]
  show ?thesis
    by (simp add: synthesize_def)
qed

section \<open>Tree consistency of a generation\<close>

lemma tree_consistent_iff:
  "tree_consistent gs \<longleftrightarrow>
     (\<forall>f \<in> set gs. \<forall>pp. getParentPath (gen_path f) = Some pp \<longrightarrow>
        (\<exists>g \<in> set gs. gen_is_folder g \<and> gen_path g = pp))"
  by (auto simp: tree_consistent_def list_all_iff list_ex_iff split: option.splits)

lemma generated_parent_paths:
  "getParentPath ''/src'' = None"
  "getParentPath ''/public'' = None"
  "getParentPath ''/package.json'' = None"
  "getParentPath ''/README.md'' = None"
  "getParentPath ''/frontend'' = None"
  "getParentPath ''/backend'' = None"
  "getParentPath ''/src/App.tsx'' = Some ''/src''"
  "getParentPath ''/src/index.tsx'' = Some ''/src''"
  "getParentPath ''/src/App.css'' = Some ''/src''"
  "getParentPath ''/src/server.js'' = Some ''/src''"
  "getParentPath ''/src/index.js'' = Some ''/src''"
  "getParentPath ''/public/index.html'' = Some ''/public''"
  "getParentPath ''/frontend/package.json'' = Some ''/frontend''"
  "getParentPath ''/backend/package.json'' = Some ''/backend''"
  "getParentPath ''/frontend/src'' = Some ''/frontend''"
  "getParentPath ''/frontend/src/App.js'' = Some ''/frontend/src''"
  "getParentPath ''/backend/server.js'' = Some ''/backend''"
  by (simp_all add: getParentPath_def)

lemma tree_consistent_React: "tree_consistent (generateReactProject n)"
  by (simp add: tree_consistent_def generateReactProject_def generated_parent_paths)

lemma tree_consistent_API: "tree_consistent (generateAPIProject n)"
  by (simp add: tree_consistent_def generateAPIProject_def generated_parent_paths)

lemma tree_consistent_FullStack: "tree_consistent (generateFullStackProject n)"
  by (simp add: tree_consistent_def generateFullStackProject_def generated_parent_paths)

lemma tree_consistent_Basic: "tree_consistent (generateBasicProject n)"
  by (simp add: tree_consistent_def generateBasicProject_def generated_parent_paths)

lemma tree_consistent_generated: "tree_consistent (generateFilesFromPrompt p n)"
  using generateFilesFromPrompt_cases [of p n]
  by (auto simp: tree_consistent_React tree_consistent_API tree_consistent_FullStack
      tree_consistent_Basic)

lemma insert_generated_files_ok:
  assumes "filter (\<lambda>p. project_id p = projectId) (projects st) \<noteq> []"
  shows "\<exists>st'. insert_generated_files st now projectId gs = (Inr (), st')"
  using assms
proof (induction gs arbitrary: st)
  case Nil
  then show ?case by simp
next
  case (Cons g gs)
  let ?v = "\<lparr>cf_project_id = projectId, cf_path = gen_path g, cf_name = gen_name g,
              cf_content = gen_content g, cf_is_folder = gen_is_folder g,
              cf_parent_path = getParentPath (gen_path g)\<rparr>"
  obtain r st1 where i: "insert_file st now ?v = (Inr r, st1)" "projects st1 = projects st"
    using Cons.prems by (simp add: insert_file_def Let_def)
  with Cons.prems have "filter (\<lambda>p. project_id p = projectId) (projects st1) \<noteq> []"
    by simp
  from Cons.IH [OF this] i show ?case by simp
qed

text \<open>
  C2. For every store, clock reading and id of a stored project (so for every project
  name and prompt, hence for each archetype), \<open>simulateAIGeneration\<close> returns, and in
  the list it returns every node whose parent path, computed from its path, is not
  null has a folder node with exactly that path in the same list.
\<close>

theorem simulateAIGeneration_tree_consistent:
  assumes "\<exists>p \<in> set (projects st). project_id p = projectId"
  shows "\<exists>project generatedFiles st'.
           simulateAIGeneration st now projectId = (Inr (project, generatedFiles), st')
           \<and> project \<in> set (projects st) \<and> project_id project = projectId
           \<and> generatedFiles = generateFilesFromPrompt (project_ai_prompt project) (project_name project)
           \<and> (\<forall>f \<in> set generatedFiles. \<forall>pp. getParentPath (gen_path f) = Some pp \<longrightarrow>
                 (\<exists>g \<in> set generatedFiles. gen_is_folder g \<and> gen_path g = pp))"
proof -
  from assms have ne: "filter (\<lambda>p. project_id p = projectId) (projects st) \<noteq> []"
    by (simp add: filter_empty_conv)
  then obtain project rest where f: "filter (\<lambda>p. project_id p = projectId) (projects st) = project # rest"
    by (cases "filter (\<lambda>p. project_id p = projectId) (projects st)") auto
  let ?gs = "generateFilesFromPrompt (project_ai_prompt project) (project_name project)"
  from insert_generated_files_ok [OF ne] obtain st'
    where i: "insert_generated_files st now projectId ?gs = (Inr (), st')"
    by blast
  have "simulateAIGeneration st now projectId = (Inr (project, ?gs), st')"
    by (simp add: simulateAIGeneration_def f i)
  moreover have "project \<in> set (projects st) \<and> project_id project = projectId"
  proof -
    have "project \<in> set (filter (\<lambda>p. project_id p = projectId) (projects st))"
      by (simp add: f)
    then show ?thesis by simp
  qed
  moreover have "\<forall>f \<in> set ?gs. \<forall>pp. getParentPath (gen_path f) = Some pp \<longrightarrow>
                 (\<exists>g \<in> set ?gs. gen_is_folder g \<and> gen_path g = pp)"
    using tree_consistent_generated [of "project_ai_prompt project" "project_name project"]
    by (simp add: tree_consistent_iff)
  ultimately show ?thesis by blast
qed

theorem simulateAIGeneration_tree_consistent_witness:
  "(\<exists>p \<in> set (projects gallery_db). project_id p = 1)
   \<and> map gen_path (generated_files_of (simulateAIGeneration gallery_db 5 1))
       = [''/frontend'', ''/backend'', ''/package.json'', ''/frontend/package.json'',
          ''/backend/package.json'', ''/frontend/src'', ''/frontend/src/App.js'',
          ''/backend/server.js'']
   \<and> tree_consistent (generated_files_of (simulateAIGeneration gallery_db 5 1))"
proof -
  have h: "\<exists>p \<in> set (projects gallery_db). project_id p = 1"
    by (simp add: gallery_db_def shop_def)
  have l: "toLowerCase ''a fullstack shop'' = ''a fullstack shop''"
    by code_simp
  from simulateAIGeneration_tree_consistent [OF h, of 5]
  obtain project gs st' where
    s: "simulateAIGeneration gallery_db 5 1 = (Inr (project, gs), st')"
    and m: "project \<in> set (projects gallery_db)"
    and g: "gs = generateFilesFromPrompt (project_ai_prompt project) (project_name project)"
    and t: "\<forall>f \<in> set gs. \<forall>pp. getParentPath (gen_path f) = Some pp \<longrightarrow>
                 (\<exists>g \<in> set gs. gen_is_folder g \<and> gen_path g = pp)"
    by blast
  from m have p: "project = shop\<lparr>project_ai_prompt := ''a fullstack shop''\<rparr>"
    by (simp add: gallery_db_def)
  have "gs = generateFullStackProject ''Shop''"
    by (simp add: g p shop_def generateFilesFromPrompt_def l)
  then have "map gen_path gs = [''/frontend'', ''/backend'', ''/package.json'', ''/frontend/package.json'',
          ''/backend/package.json'', ''/frontend/src'', ''/frontend/src/App.js'',
          ''/backend/server.js'']"
    by (simp add: generateFullStackProject_def)
  with h s t show ?thesis
    by (simp add: generated_files_of_def tree_consistent_iff)
qed

section \<open>Deleting a folder\<close>

lemma like_match_percent: "like_match ''%'' s"
  by (induction s) auto

lemma like_match_prefix:
  assumes "\<forall>c \<in> set p. \<not> like_meta c"
  shows "like_match (p @ ''%'') s \<longleftrightarrow> prefix p s"
  using assms
proof (induction p arbitrary: s)
  case Nil
  show ?case using like_match_percent by simp
next
  case (Cons c p)
  then have c: "c \<noteq> CHR ''%''" "c \<noteq> CHR ''_''" "c \<noteq> CHR 0x5C"
    by (auto simp: like_meta_def)
  from Cons have ih: "like_match (p @ ''%'') t \<longleftrightarrow> prefix p t" for t
    by simp
  show ?case
    using c by (cases s) (auto simp: ih)
qed

lemma select_by_key:
  assumes "distinct (map file_id fs)" "F \<in> set fs"
  shows "filter (\<lambda>f. file_id f = file_id F \<and> file_project_id f = file_project_id F) fs = [F]"
  using assms
proof (induction fs)
  case Nil
  then show ?case by simp
next
  case (Cons a fs)
  show ?case
  proof (cases "a = F")
    case True
    with Cons.prems have "file_id F \<notin> file_id ` set fs"
      by simp
    then have "\<forall>f \<in> set fs. file_id f \<noteq> file_id F"
      by (metis imageI)
    then have "filter (\<lambda>f. file_id f = file_id F \<and> file_project_id f = file_project_id F) fs = []"
      by (simp add: filter_empty_conv)
    with True show ?thesis by simp
  next
    case False
    with Cons.prems have "F \<in> set fs" "file_id a \<noteq> file_id F"
      by auto
    with Cons show ?thesis by simp
  qed
qed

lemma key_identifies:
  assumes "distinct (map file_id fs)" "F \<in> set fs" "f \<in> set fs"
  shows "file_id f = file_id F \<longleftrightarrow> f = F"
  using assms by (metis distinct_map inj_on_def)

text \<open>
  C1, as the code has it. In a store whose node keys are distinct (the primary key),
  for a stored folder \<open>F\<close> whose path has none of the characters \<^verbatim>\<open>%\<close>, \<^verbatim>\<open>_\<close> and
  backslash, \<open>deleteFile\<close> on \<open>F\<close>'s key and project deletes exactly \<open>F\<close> and the nodes of
  the same project whose path starts with \<open>F\<close>'s path followed by a slash, or with
  \<open>F\<close>'s path itself when that already ends in a slash; every other node, and every
  other table, is unchanged. So \<^verbatim>\<open>/src2\<close> stays when \<^verbatim>\<open>/src\<close> goes, and so do the nodes
  of other projects, whatever their paths.
\<close>

theorem deleteFile_folder_by_prefix:
  assumes pk: "distinct (map file_id (files st))"
    and F: "F \<in> set (files st)" "file_is_folder F"
    and plain: "\<forall>c \<in> set (file_path F). \<not> like_meta c"
  shows "snd (deleteFile st (file_id F) (file_project_id F)) =
           st\<lparr>files :=
                filter
                  (\<lambda>n. \<not> (n = F
                          \<or> (file_project_id n = file_project_id F
                              \<and> prefix (if endsWith (file_path F) ''/'' then file_path F
                                         else file_path F @ ''/'')
                                   (file_path n))))
                  (files st)\<rparr>"
proof -
  let ?fp = "if endsWith (file_path F) ''/'' then file_path F else file_path F @ ''/''"
  let ?key = "\<lambda>f. file_id f = file_id F \<and> file_project_id f = file_project_id F"
  have sel: "filter ?key (files st) = [F]"
    by (rule select_by_key [OF pk F(1)])
  have "\<forall>c \<in> set ?fp. \<not> like_meta c"
    using plain by (auto simp: like_meta_def)
  then have like: "like_match (?fp @ ''%'') s \<longleftrightarrow> prefix ?fp s" for s
    by (rule like_match_prefix)
  have "filter (\<lambda>f. \<not> ?key f)
          (filter (\<lambda>f. \<not> (file_project_id f = file_project_id F \<and> prefix ?fp (file_path f))) (files st))
        = filter (\<lambda>n. \<not> (n = F \<or> (file_project_id n = file_project_id F \<and> prefix ?fp (file_path n))))
            (files st)"
    unfolding filter_filter
  proof (rule filter_cong [OF refl])
    fix n assume "n \<in> set (files st)"
    with pk F(1) have "?key n \<longleftrightarrow> n = F"
      using key_identifies by blast
    then show "(\<not> (file_project_id n = file_project_id F \<and> prefix ?fp (file_path n)) \<and> \<not> ?key n)
       = (\<not> (n = F \<or> (file_project_id n = file_project_id F \<and> prefix ?fp (file_path n))))"
      by blast
  qed
  then show ?thesis
    using F(2) by (simp add: deleteFile_def sel like Let_def del: filter_filter)
qed

theorem deleteFile_folder_by_prefix_witness:
  "distinct (map file_id (files tree_db))
   \<and> file_row 1 1 ''/src'' True \<in> set (files tree_db)
   \<and> files (snd (deleteFile tree_db 1 1)) =
       [file_row 5 1 ''/src2'' True, file_row 6 1 ''/src2/c.ts'' False,
        file_row 7 2 ''/src/a.ts'' False]"
proof -
  let ?F = "file_row 1 1 ''/src'' True"
  have pk: "distinct (map file_id (files tree_db))"
    by (simp add: tree_db_def files_db_def file_row_def)
  have F: "?F \<in> set (files tree_db)" "file_is_folder ?F"
    by (simp_all add: tree_db_def files_db_def file_row_def)
  have plain: "\<forall>c \<in> set (file_path ?F). \<not> like_meta c"
    by (simp add: file_row_def like_meta_def)
  have k: "file_id ?F = 1" "file_project_id ?F = 1"
    by (simp_all add: file_row_def)
  from deleteFile_folder_by_prefix [OF pk F plain]
  have "files (snd (deleteFile tree_db 1 1)) =
       [file_row 5 1 ''/src2'' True, file_row 6 1 ''/src2/c.ts'' False,
        file_row 7 2 ''/src/a.ts'' False]"
    unfolding k by (simp add: tree_db_def files_db_def file_row_def endsWith_def suffix_to_prefix)
  with pk F show ?thesis by simp
qed

text \<open>
  As the specification states it (the descendants are the paths that start with the
  folder's path followed by a slash) the property fails for a folder whose path ends
  in a slash: no slash is appended, so \<^verbatim>\<open>/src/a.ts\<close> goes with the folder \<^verbatim>\<open>/src/\<close>
  although it does not start with \<^verbatim>\<open>/src//\<close>.
\<close>

theorem deleteFile_trailing_slash_counterexample:
  "file_row 1 1 ''/src/'' True \<in> set (files slash_db)
   \<and> \<not> prefix (''/src/'' @ ''/'') ''/src/a.ts''
   \<and> files (snd (deleteFile slash_db 1 1)) = []"
  by (simp add: slash_db_def files_db_def file_row_def deleteFile_def endsWith_def Let_def
      suffix_to_prefix)

text \<open>
  A path with a \<^verbatim>\<open>LIKE\<close> wildcard is outside the statement above: the pattern is built
  from the path unescaped, and deleting the folder \<^verbatim>\<open>/a_b\<close> also deletes \<^verbatim>\<open>/axb/c.ts\<close>.
\<close>

lemma deleteFile_like_wildcard:
  "\<not> prefix ''/a_b/'' ''/axb/c.ts'' \<and> files (snd (deleteFile underscore_db 1 1)) = []"
  by (simp add: underscore_db_def files_db_def file_row_def deleteFile_def endsWith_def Let_def
      suffix_to_prefix)

section \<open>The slug loop\<close>

lemma digit_char_inj: "d < 10 \<Longrightarrow> e < 10 \<Longrightarrow> digit_char d = digit_char e \<Longrightarrow> d = e"
proof -
  assume a: "d < 10" "e < 10" "digit_char d = digit_char e"
  then have "(of_char (digit_char d) :: nat) = of_char (digit_char e)" by simp
  with a show ?thesis by (simp add: digit_char_def)
qed

lemma show_nat_not_Nil: "show_nat n \<noteq> []"
  by (subst show_nat.simps) simp

lemma show_nat_length: "n < 10 \<longleftrightarrow> length (show_nat n) = 1"
proof (cases "n < 10")
  case True then show ?thesis by (simp add: show_nat.simps)
next
  case False
  have "length (show_nat (n div 10)) \<noteq> 0"
    using show_nat_not_Nil by simp
  with False show ?thesis by (subst show_nat.simps) simp
qed

lemma show_nat_inj: "show_nat n = show_nat m \<Longrightarrow> n = m"
proof (induction n arbitrary: m rule: show_nat.induct)
  case (1 n)
  show ?case
  proof (cases "n < 10")
    case True
    with "1.prems" have m: "m < 10" using show_nat_length by metis
    with True "1.prems" show ?thesis
      by (simp add: show_nat.simps [of n] show_nat.simps [of m] digit_char_inj)
  next
    case False
    with "1.prems" have m: "\<not> m < 10" using show_nat_length by metis
    from False m "1.prems"
    have "show_nat (n div 10) @ [digit_char (n mod 10)] = show_nat (m div 10) @ [digit_char (m mod 10)]"
      by (simp add: show_nat.simps [of n] show_nat.simps [of m])
    then have e: "show_nat (n div 10) = show_nat (m div 10)" "digit_char (n mod 10) = digit_char (m mod 10)"
      by simp_all
    from "1.IH" [OF False e(1)] have "n div 10 = m div 10" .
    moreover from e(2) have "n mod 10 = m mod 10"
      by (rule digit_char_inj [rotated 2]) simp_all
    ultimately show ?thesis by (metis div_mult_mod_eq)
  qed
qed

lemma slug_candidate_inj: "slug_candidate b j = slug_candidate b k \<Longrightarrow> j = k"
  by (auto simp: slug_candidate_def dest: show_nat_inj split: if_splits)

lemma slug_candidate_Suc: "slug_candidate b (Suc k) = b @ ''-'' @ show_nat (Suc k)"
  by (simp add: slug_candidate_def)

lemma slug_loop_finds:
  assumes "\<not> slug_taken st (slug_candidate b (j + d))"
    and "\<forall>i. j \<le> i \<and> i < j + d \<longrightarrow> slug_taken st (slug_candidate b i)"
  shows "slug_loop st b (slug_candidate b j) (Suc j) = Some (slug_candidate b (j + d))"
  using assms
proof (induction d arbitrary: j)
  case 0
  then show ?case
    by (subst slug_loop.simps) (simp add: slug_taken_def)
next
  case (Suc d)
  from Suc.prems(2) have t: "slug_taken st (slug_candidate b j)" by simp
  have "slug_loop st b (slug_candidate b (Suc j)) (Suc (Suc j)) = Some (slug_candidate b (Suc j + d))"
    using Suc.prems by (intro Suc.IH) auto
  with t show ?case
    by (subst slug_loop.simps) (simp add: slug_taken_def slug_candidate_Suc)
qed

lemma slug_taken_iff: "slug_taken st s \<longleftrightarrow> s \<in> project_slug ` set (projects st)"
  by (auto simp: slug_taken_def filter_empty_conv)

lemma free_candidate_exists: "\<exists>k. \<not> slug_taken st (slug_candidate b k)"
proof -
  have "inj (slug_candidate b)"
    by (rule injI) (rule slug_candidate_inj)
  then have "finite (slug_candidate b -` (project_slug ` set (projects st)))"
    by (intro finite_vimageI) simp_all
  then obtain k where "k \<notin> slug_candidate b -` (project_slug ` set (projects st))"
    using ex_new_if_finite [OF infinite_UNIV_nat] by blast
  then show ?thesis
    by (auto simp: slug_taken_iff)
qed

lemma first_free_candidate:
  "\<exists>k. \<not> slug_taken st (slug_candidate b k) \<and> (\<forall>j < k. slug_taken st (slug_candidate b j))"
proof -
  from free_candidate_exists [of st b] obtain k0 where "\<not> slug_taken st (slug_candidate b k0)" ..
  then have "\<not> slug_taken st (slug_candidate b (LEAST k. \<not> slug_taken st (slug_candidate b k)))"
    by (rule LeastI)
  moreover have "\<forall>j < (LEAST k. \<not> slug_taken st (slug_candidate b k)). slug_taken st (slug_candidate b j)"
    using not_less_Least by blast
  ultimately show ?thesis by blast
qed

lemma createProject_picks:
  assumes u: "cp_user_id input \<in> user_id ` set (users st)"
    and k: "\<not> slug_taken st (slug_candidate (createProject_baseSlug (cp_name input)) k)"
           "\<forall>j < k. slug_taken st (slug_candidate (createProject_baseSlug (cp_name input)) j)"
  shows "\<exists>p. createProject st now input
               = Some (Inr p, st\<lparr>projects := projects st @ [p],
                                 projects_id_seq := Suc (projects_id_seq st)\<rparr>)
             \<and> project_slug p = slug_candidate (createProject_baseSlug (cp_name input)) k"
proof -
  let ?b = "createProject_baseSlug (cp_name input)"
  from u have ue: "filter (\<lambda>u. user_id u = cp_user_id input) (users st) \<noteq> []"
    by (auto simp: filter_empty_conv)
  have "slug_loop st ?b (slug_candidate ?b 0) (Suc 0) = Some (slug_candidate ?b (0 + k))"
    using k by (intro slug_loop_finds) auto
  then have l: "slug_loop st ?b ?b (Suc 0) = Some (slug_candidate ?b k)"
    by (simp add: slug_candidate_def)
  from k(1) have f: "filter (\<lambda>p. project_slug p = slug_candidate ?b k) (projects st) = []"
    by (simp add: slug_taken_def)
  show ?thesis
    by (simp add: createProject_def ue l insert_project_def f Let_def)
qed

lemma slug_taken_after_insert:
  "slug_taken (st\<lparr>projects := projects st @ [p], projects_id_seq := q\<rparr>) s
     \<longleftrightarrow> slug_taken st s \<or> s = project_slug p"
  by (auto simp: slug_taken_iff)

lemma create_in_sequence_slugs:
  assumes "\<forall>i \<in> set inputs. cp_user_id i \<in> user_id ` set (users st) \<and> cp_name i = name"
    and "\<forall>j < m. slug_taken st (slug_candidate (createProject_baseSlug name) j)"
  shows "\<exists>ks st'. create_in_sequence st now inputs
                     = Some (map (slug_candidate (createProject_baseSlug name)) ks, st')
           \<and> length ks = length inputs
           \<and> sorted_wrt (<) ks \<and> (\<forall>k \<in> set ks. m \<le> k)
           \<and> ((\<forall>k. m \<le> k \<and> k < m + length inputs
                  \<longrightarrow> \<not> slug_taken st (slug_candidate (createProject_baseSlug name) k))
                \<longrightarrow> ks = [m..<m + length inputs])"
  using assms
proof (induction inputs arbitrary: st m)
  case Nil
  show ?case by simp
next
  case (Cons input rest)
  let ?c = "slug_candidate (createProject_baseSlug name)"
  let ?n = "length rest"
  from Cons.prems(1) have i: "cp_user_id input \<in> user_id ` set (users st)" "cp_name input = name"
    by simp_all
  from first_free_candidate obtain k0
    where k0: "\<not> slug_taken st (?c k0)" "\<forall>j < k0. slug_taken st (?c j)"
    by blast
  with Cons.prems(2) have mk: "m \<le> k0"
    by (meson not_le)
  from createProject_picks [OF i(1), of k0 now] k0 i(2) obtain p
    where p: "createProject st now input
               = Some (Inr p, st\<lparr>projects := projects st @ [p],
                                 projects_id_seq := Suc (projects_id_seq st)\<rparr>)"
      "project_slug p = ?c k0"
    by auto
  let ?st1 = "st\<lparr>projects := projects st @ [p], projects_id_seq := Suc (projects_id_seq st)\<rparr>"
  have t1: "slug_taken ?st1 s \<longleftrightarrow> slug_taken st s \<or> s = ?c k0" for s
    by (simp add: slug_taken_after_insert p(2))
  have u1: "\<forall>i \<in> set rest. cp_user_id i \<in> user_id ` set (users ?st1) \<and> cp_name i = name"
    using Cons.prems(1) by simp
  have b1: "\<forall>j < Suc k0. slug_taken ?st1 (?c j)"
    using k0(2) by (auto simp: t1 less_Suc_eq)
  from Cons.IH [OF u1 b1] obtain ks st'
    where r: "create_in_sequence ?st1 now rest = Some (map ?c ks, st')"
      "length ks = ?n" "sorted_wrt (<) ks" "\<forall>k \<in> set ks. Suc k0 \<le> k"
      "(\<forall>k. Suc k0 \<le> k \<and> k < Suc k0 + ?n \<longrightarrow> \<not> slug_taken ?st1 (?c k)) \<longrightarrow> ks = [Suc k0..<Suc k0 + ?n]"
    by blast
  have run: "create_in_sequence st now (input # rest) = Some (map ?c (k0 # ks), st')"
    by (simp add: p r(1))
  have len: "length (k0 # ks) = length (input # rest)"
    by (simp add: r(2))
  have srt: "sorted_wrt (<) (k0 # ks)"
    using r(3,4) by (auto simp: Suc_le_eq)
  have low: "\<forall>k \<in> set (k0 # ks). m \<le> k"
    using mk r(4) by auto
  have "k0 # ks = [m..<m + length (input # rest)]"
    if free: "\<forall>k. m \<le> k \<and> k < m + length (input # rest) \<longrightarrow> \<not> slug_taken st (?c k)"
  proof -
    from free have "\<not> slug_taken st (?c m)" by simp
    with k0(2) have "\<not> m < k0" by blast
    with mk have e: "k0 = m" by simp
    have "\<forall>k. Suc k0 \<le> k \<and> k < Suc k0 + ?n \<longrightarrow> \<not> slug_taken ?st1 (?c k)"
    proof (intro allI impI)
      fix k assume k: "Suc k0 \<le> k \<and> k < Suc k0 + ?n"
      with free e have "\<not> slug_taken st (?c k)" by simp
      moreover from k have "?c k \<noteq> ?c k0"
        using slug_candidate_inj by fastforce
      ultimately show "\<not> slug_taken ?st1 (?c k)"
        by (simp add: t1)
    qed
    with r(5) have "ks = [Suc k0..<Suc k0 + ?n]" by blast
    with e show ?thesis by (simp add: upt_rec)
  qed
  with run len srt low show ?case by blast
qed

text \<open>
  C4. For an input whose user exists, whatever slugs are stored, \<open>createProject\<close>
  returns (the loop ends) and the project it inserts carries the first candidate of
  the sequence base, base-1, base-2, ... that is not taken, the base being the
  normalized name. Consequently, creating one project per input of a list of inputs
  with that same name assigns candidates of strictly increasing index, none used
  twice, and when none of the first n candidates is taken at the start the n slugs
  are base, base-1, ..., base-(n-1).
\<close>

theorem createProject_first_free_slug:
  assumes "cp_user_id input \<in> user_id ` set (users st)"
    and "\<forall>i \<in> set inputs. cp_user_id i \<in> user_id ` set (users st) \<and> cp_name i = cp_name input"
  shows "(\<exists>k p st'. createProject st now input = Some (Inr p, st')
            \<and> projects st' = projects st @ [p]
            \<and> project_slug p = slug_candidate (createProject_baseSlug (cp_name input)) k
            \<and> \<not> slug_taken st (slug_candidate (createProject_baseSlug (cp_name input)) k)
            \<and> (\<forall>j < k. slug_taken st (slug_candidate (createProject_baseSlug (cp_name input)) j)))
       \<and> (\<exists>ks st'. create_in_sequence st now inputs
                      = Some (map (slug_candidate (createProject_baseSlug (cp_name input))) ks, st')
            \<and> length ks = length inputs
            \<and> sorted_wrt (<) ks
            \<and> ((\<forall>k < length inputs.
                    \<not> slug_taken st (slug_candidate (createProject_baseSlug (cp_name input)) k))
                 \<longrightarrow> ks = [0..<length inputs]))"
proof -
  let ?c = "slug_candidate (createProject_baseSlug (cp_name input))"
  from first_free_candidate obtain k
    where k: "\<not> slug_taken st (?c k)" "\<forall>j < k. slug_taken st (?c j)"
    by blast
  from createProject_picks [OF assms(1) k, of now] k
  have one: "\<exists>k p st'. createProject st now input = Some (Inr p, st')
            \<and> projects st' = projects st @ [p] \<and> project_slug p = ?c k
            \<and> \<not> slug_taken st (?c k) \<and> (\<forall>j < k. slug_taken st (?c j))"
    by fastforce
  have "\<forall>j < 0. slug_taken st (?c j)" by simp
  from create_in_sequence_slugs [OF assms(2) this, of now]
  have many: "\<exists>ks st'. create_in_sequence st now inputs = Some (map ?c ks, st')
            \<and> length ks = length inputs \<and> sorted_wrt (<) ks
            \<and> ((\<forall>k < length inputs. \<not> slug_taken st (?c k)) \<longrightarrow> ks = [0..<length inputs])"
    by auto
  from one many show ?thesis by blast
qed

theorem createProject_first_free_slug_witness:
  "cp_user_id shop_input \<in> user_id ` set (users shop_db)
   \<and> slug_taken shop_db ''shop''
   \<and> created_slug (createProject shop_db 5 shop_input) = Some ''shop-1''
   \<and> map_option fst
        (create_in_sequence no_projects_db 5
           [shop_input, shop_input\<lparr>cp_ai_prompt := ''another shop''\<rparr>,
            shop_input\<lparr>cp_description := Some ''the third''\<rparr>])
       = Some [''shop'', ''shop-1'', ''shop-2'']"
proof -
  let ?c = "slug_candidate (createProject_baseSlug (cp_name shop_input))"
  let ?inputs = "[shop_input, shop_input\<lparr>cp_ai_prompt := ''another shop''\<rparr>,
            shop_input\<lparr>cp_description := Some ''the third''\<rparr>]"
  have b: "createProject_baseSlug (cp_name shop_input) = ''shop''"
    unfolding shop_input_def by code_simp
  have c: "?c 0 = ''shop''" "?c 1 = ''shop-1''" "?c 2 = ''shop-2''"
    unfolding b by code_simp+
  have u: "cp_user_id shop_input \<in> user_id ` set (users shop_db)"
    by (simp add: shop_input_def shop_db_def ada_def)
  have u0: "cp_user_id shop_input \<in> user_id ` set (users no_projects_db)"
    by (simp add: shop_input_def no_projects_db_def shop_db_def ada_def)
  have us: "\<forall>i \<in> set ?inputs. cp_user_id i \<in> user_id ` set (users no_projects_db)
              \<and> cp_name i = cp_name shop_input"
    by (simp add: shop_input_def no_projects_db_def shop_db_def ada_def)
  have t: "slug_taken shop_db ''shop''" "\<not> slug_taken shop_db ''shop-1''"
    by (simp_all add: slug_taken_def shop_db_def shop_def)
  have "\<forall>i \<in> set []. cp_user_id i \<in> user_id ` set (users shop_db) \<and> cp_name i = cp_name shop_input"
    by simp
  from createProject_first_free_slug [OF u this, of 5] obtain k p st'
    where k: "createProject shop_db 5 shop_input = Some (Inr p, st')" "project_slug p = ?c k"
      "\<not> slug_taken shop_db (?c k)" "\<forall>j < k. slug_taken shop_db (?c j)"
    by blast
  from k(3) t(1) c(1) have "k \<noteq> 0" by metis
  moreover from k(4) t(2) c(2) have "\<not> 1 < k" by metis
  ultimately have "k = 1" by simp
  with k(1,2) c(2) have one: "created_slug (createProject shop_db 5 shop_input) = Some ''shop-1''"
    by (simp add: created_slug_def)
  have free: "\<forall>k < length ?inputs. \<not> slug_taken no_projects_db (?c k)"
    by (simp add: slug_taken_def no_projects_db_def)
  from createProject_first_free_slug [OF u0 us, of 5] obtain ks st''
    where r: "create_in_sequence no_projects_db 5 ?inputs = Some (map ?c ks, st'')"
      "(\<forall>k < length ?inputs. \<not> slug_taken no_projects_db (?c k)) \<longrightarrow> ks = [0..<length ?inputs]"
    by blast
  from r(2) free have "ks = [0, 1, 2]"
    by (simp add: upt_rec)
  with r(1) c have "map_option fst (create_in_sequence no_projects_db 5 ?inputs)
       = Some [''shop'', ''shop-1'', ''shop-2'']"
    by simp
  with u t(1) one show ?thesis by simp
qed

section \<open>Renaming a project\<close>

lemma updateData_slug:
  "project_slug (updateData now input p)
     = (case up_name input of None \<Rightarrow> project_slug p | Some n \<Rightarrow> updateProject_slug n)"
  by (simp add: updateData_def Let_def split: option.splits)

lemma updateData_id: "project_id (updateData now input p) = project_id p"
  by (simp add: updateData_def Let_def split: option.splits)

lemma updateProject_error_keeps_store:
  "fst (updateProject st now input) = Inl e \<Longrightarrow> snd (updateProject st now input) = st"
  by (auto simp: updateProject_def update_projects_def Let_def split: if_splits)

lemma updateProject_success:
  assumes "fst (updateProject st now input) = Inr p"
  shows "snd (updateProject st now input)
           = st\<lparr>projects :=
                 map (\<lambda>q. if project_id q = up_id input then updateData now input q else q)
                   (projects st)\<rparr>
         \<and> (\<exists>r \<in> set (projects st). project_id r = up_id input \<and> p = updateData now input r)
         \<and> (\<forall>r \<in> set (projects st). \<forall>q \<in> set (projects st).
               project_id r = up_id input \<and> project_id q \<noteq> up_id input
               \<longrightarrow> project_slug q \<noteq> project_slug (updateData now input r))"
proof -
  let ?hit = "filter (\<lambda>q. project_id q = up_id input) (projects st)"
  from assms have ne: "?hit \<noteq> []"
    by (auto simp: updateProject_def split: if_splits)
  then have "hd ?hit \<in> set ?hit"
    by (rule hd_in_set)
  then have h: "hd ?hit \<in> set (projects st)" "project_id (hd ?hit) = up_id input"
    by simp_all
  from assms ne have p: "p = updateData now input (hd ?hit)"
    by (auto simp: updateProject_def update_projects_def Let_def hd_map split: if_splits)
  from assms have free: "\<forall>r \<in> set (projects st). \<forall>q \<in> set (projects st).
               project_id r = up_id input \<and> project_id q \<noteq> up_id input
               \<longrightarrow> project_slug q \<noteq> project_slug (updateData now input r)"
    by (auto simp: updateProject_def update_projects_def Let_def list_ex_iff split: if_splits)
  from assms have "snd (updateProject st now input)
           = st\<lparr>projects :=
                 map (\<lambda>q. if project_id q = up_id input then updateData now input q else q)
                   (projects st)\<rparr>"
    by (auto simp: updateProject_def update_projects_def Let_def split: if_splits)
  with h p free show ?thesis by blast
qed

lemma updateProject_slugs_stay_distinct:
  assumes ids: "distinct (map project_id (projects st))"
    and slugs: "distinct (map project_slug (projects st))"
  shows "distinct (map project_slug (projects (snd (updateProject st now input))))"
proof (cases "fst (updateProject st now input)")
  case (Inl e)
  then have "snd (updateProject st now input) = st"
    by (rule updateProject_error_keeps_store)
  with slugs show ?thesis by simp
next
  case (Inr p)
  let ?pid = "up_id input"
  let ?upd = "updateData now input"
  let ?f = "\<lambda>q. if project_id q = ?pid then ?upd q else q"
  from updateProject_success [OF Inr]
  have st': "snd (updateProject st now input) = st\<lparr>projects := map ?f (projects st)\<rparr>"
    and free: "\<forall>r \<in> set (projects st). \<forall>q \<in> set (projects st).
      project_id r = ?pid \<and> project_id q \<noteq> ?pid \<longrightarrow> project_slug q \<noteq> project_slug (?upd r)"
    by blast+
  have inj: "inj_on (\<lambda>q. project_slug (?f q)) (set (projects st))"
  proof (rule inj_onI)
    fix x y
    assume x: "x \<in> set (projects st)" and y: "y \<in> set (projects st)"
      and e: "project_slug (?f x) = project_slug (?f y)"
    have idinj: "project_id x = project_id y \<Longrightarrow> x = y"
      using ids x y by (metis distinct_map inj_on_def)
    have sluginj: "project_slug x = project_slug y \<Longrightarrow> x = y"
      using slugs x y by (metis distinct_map inj_on_def)
    show "x = y"
    proof (cases "project_id x = ?pid")
      case True
      show ?thesis
      proof (cases "project_id y = ?pid")
        case True
        with \<open>project_id x = ?pid\<close> idinj show ?thesis by simp
      next
        case False
        with True free x y have "project_slug y \<noteq> project_slug (?upd x)" by blast
        with True False e show ?thesis by simp
      qed
    next
      case False
      show ?thesis
      proof (cases "project_id y = ?pid")
        case True
        with False free x y have "project_slug x \<noteq> project_slug (?upd y)" by blast
        with True False e show ?thesis by simp
      next
        case n: False
        with False e sluginj show ?thesis by simp
      qed
    qed
  qed
  from slugs have "distinct (projects st)"
    by (simp add: distinct_map)
  with inj have "distinct (map (\<lambda>q. project_slug (?f q)) (projects st))"
    by (simp add: distinct_map)
  then have "distinct (map project_slug (map ?f (projects st)))"
    by (simp add: comp_def)
  with st' show ?thesis by simp
qed

lemma updateProject_renamed_slug_is_free:
  assumes ok: "fst (updateProject st now input) = Inr p"
    and name: "up_name input = Some n"
  shows "project_slug p = updateProject_slug n
         \<and> (\<forall>q \<in> set (projects (snd (updateProject st now input))).
               project_id q \<noteq> up_id input \<longrightarrow> project_slug q \<noteq> updateProject_slug n)"
proof -
  let ?pid = "up_id input"
  let ?upd = "updateData now input"
  let ?f = "\<lambda>q. if project_id q = ?pid then ?upd q else q"
  from updateProject_success [OF ok] obtain r
    where st': "snd (updateProject st now input) = st\<lparr>projects := map ?f (projects st)\<rparr>"
      and r: "r \<in> set (projects st)" "project_id r = ?pid" "p = ?upd r"
      and free: "\<forall>r \<in> set (projects st). \<forall>q \<in> set (projects st).
        project_id r = ?pid \<and> project_id q \<noteq> ?pid \<longrightarrow> project_slug q \<noteq> project_slug (?upd r)"
    by blast
  have slug: "project_slug (?upd x) = updateProject_slug n" for x
    by (simp add: updateData_slug name)
  have "project_slug q \<noteq> updateProject_slug n"
    if q: "q \<in> set (map ?f (projects st))" "project_id q \<noteq> ?pid" for q
  proof -
    from q(1) obtain q0 where q0: "q0 \<in> set (projects st)" "q = ?f q0"
      by auto
    with q(2) have "project_id q0 \<noteq> ?pid"
      by (auto simp: updateData_id split: if_splits)
    with q0 r free have "q = q0" "project_slug q0 \<noteq> project_slug (?upd r)"
      by auto
    then show ?thesis by (simp add: slug)
  qed
  then have others: "\<forall>q \<in> set (map ?f (projects st)).
      project_id q \<noteq> ?pid \<longrightarrow> project_slug q \<noteq> updateProject_slug n"
    by blast
  have pr: "projects (snd (updateProject st now input)) = map ?f (projects st)"
    by (simp add: st')
  have "project_slug p = updateProject_slug n"
    by (simp add: r(3) slug)
  with others show ?thesis
    unfolding pr by blast
qed

text \<open>
  C5. In a store whose project keys are distinct and whose slugs are distinct, after
  any \<open>updateProject\<close> call the slugs are distinct again: slug uniqueness is preserved
  by \<open>updateProject\<close>. When the call supplies a new name and returns a project, that
  project carries the slug recomputed from the name and no other project of the
  resulting store carries it; when the call throws (the recomputed slug is another
  project's, and the unique constraint refuses the rewritten row) the store is as it
  was.
\<close>

theorem updateProject_keeps_slugs_unique:
  assumes ids: "distinct (map project_id (projects st))"
    and slugs: "distinct (map project_slug (projects st))"
  shows "distinct (map project_slug (projects (snd (updateProject st now input))))
         \<and> (\<forall>p n. fst (updateProject st now input) = Inr p \<and> up_name input = Some n
               \<longrightarrow> project_slug p = updateProject_slug n
                   \<and> (\<forall>q \<in> set (projects (snd (updateProject st now input))).
                         project_id q \<noteq> up_id input
                         \<longrightarrow> project_slug q \<noteq> updateProject_slug n))
         \<and> (\<forall>e. fst (updateProject st now input) = Inl e
               \<longrightarrow> snd (updateProject st now input) = st)"
  using updateProject_slugs_stay_distinct [OF ids slugs, of now input]
    updateProject_renamed_slug_is_free [of st now input]
    updateProject_error_keeps_store [of st now input]
  by blast

theorem updateProject_keeps_slugs_unique_witness:
  "distinct (map project_id (projects two_projects_db))
   \<and> distinct (map project_slug (projects two_projects_db))
   \<and> map project_slug (projects (snd (updateProject two_projects_db 9 rename_blog_to_journal)))
       = [''shop'', ''journal'']
   \<and> distinct (map project_slug
        (projects (snd (updateProject two_projects_db 9 rename_blog_to_journal))))
   \<and> fst (updateProject two_projects_db 9 rename_blog_to_shop)
       = Inl (UniqueViolation ''projects_slug_unique'')
   \<and> snd (updateProject two_projects_db 9 rename_blog_to_shop) = two_projects_db"
proof -
  have ids: "distinct (map project_id (projects two_projects_db))"
    by (simp add: two_projects_db_def shop_def blog_def)
  have slugs: "distinct (map project_slug (projects two_projects_db))"
    by (simp add: two_projects_db_def shop_def blog_def)
  have j: "updateProject_slug ''Journal'' = ''journal''"
    by code_simp
  have s: "updateProject_slug ''Shop'' = ''shop''"
    by code_simp
  have renamed: "map project_slug
      (projects (snd (updateProject two_projects_db 9 rename_blog_to_journal)))
       = [''shop'', ''journal'']"
    by (simp add: updateProject_def update_projects_def two_projects_db_def
        rename_blog_to_journal_def shop_def blog_def updateData_slug j in_int4_def)
  have refused: "fst (updateProject two_projects_db 9 rename_blog_to_shop)
       = Inl (UniqueViolation ''projects_slug_unique'')"
    by (simp add: updateProject_def update_projects_def two_projects_db_def
        rename_blog_to_shop_def shop_def blog_def updateData_slug s in_int4_def)
  from updateProject_keeps_slugs_unique [OF ids slugs, of 9 rename_blog_to_journal]
  have d: "distinct (map project_slug
        (projects (snd (updateProject two_projects_db 9 rename_blog_to_journal))))"
    by blast
  from updateProject_keeps_slugs_unique [OF ids slugs, of 9 rename_blog_to_shop] refused
  have "snd (updateProject two_projects_db 9 rename_blog_to_shop) = two_projects_db"
    by blast
  with ids slugs renamed d refused show ?thesis
    by blast
qed

text \<open>
  The handler itself neither looks the recomputed slug up nor disambiguates it: in the
  store above, renaming project 2 to \<^verbatim>\<open>Shop\<close> is refused, where \<open>createProject\<close> assigns
  \<^verbatim>\<open>shop-1\<close> to the same name.
\<close>

lemma updateProject_rename_refused:
  "updateProject_slug ''Shop'' = project_slug shop
   \<and> updateProject two_projects_db 9 rename_blog_to_shop
       = (Inl (UniqueViolation ''projects_slug_unique''), two_projects_db)
   \<and> created_slug (createProject two_projects_db 9 shop_input) = Some ''shop-1''"
proof -
  have s: "updateProject_slug ''Shop'' = ''shop''"
    by code_simp
  have b: "createProject_baseSlug ''Shop'' = ''shop''"
    by code_simp
  have n: "show_nat (Suc 0) = ''1''"
    by code_simp
  have u: "updateProject two_projects_db 9 rename_blog_to_shop
       = (Inl (UniqueViolation ''projects_slug_unique''), two_projects_db)"
    by (simp add: updateProject_def update_projects_def two_projects_db_def rename_blog_to_shop_def
        shop_def blog_def updateData_slug s in_int4_def)
  have c: "created_slug (createProject two_projects_db 9 shop_input) = Some ''shop-1''"
    by (simp add: createProject_def shop_input_def b slug_loop.simps n insert_project_def
        created_slug_def two_projects_db_def shop_db_def shop_def blog_def ada_def Let_def)
  from s u c show ?thesis
    by (simp add: shop_def)
qed

end
